theory Spec2Isabelle
  imports Main "HOL-Library.AList"
begin

section \<open>The Windows update service\<close>

text \<open>
  A shallow embedding of \<^verbatim>\<open>Win32UpdateService\<close> (the file with \<^verbatim>\<open>pollUntil\<close>,
  \<^verbatim>\<open>doCheckForUpdates\<close>, \<^verbatim>\<open>cleanup\<close>, \<^verbatim>\<open>doApplyUpdate\<close> and \<^verbatim>\<open>doQuitAndInstall\<close>).
  The service is single threaded: a callback runs to its end before anything else does,
  and a promise chain is suspended at each of its asynchronous calls (a request, a file
  operation). So a callback is a function from the world before it to the world after it,
  the world keeps the suspended chains (\<open>tasks\<close>), and the completion of the call a chain
  waits for is an event (\<open>Resume\<close>) that runs the chain's next callback. The public
  operations, the timers of the polls and the installer's exit are the other events; any
  of them may come between two callbacks of a chain. A callback registered on a promise
  that is already fulfilled (\<^verbatim>\<open>TPromise.as\<close>, the memoized \<^verbatim>\<open>cachePath\<close> once the
  directory exists) runs before any other event, so it belongs to the same step. What the
  outside answers to a chain (the feed, the transfer, failing file operations, the mutex)
  is an argument of the operation that starts it. \<^verbatim>\<open>buildUpdateFeedUrl\<close> only names the
  feed; its result is the field \<open>serviceUrl\<close>.
\<close>

subsection \<open>Data\<close>

datatype UpdateType = Setup | Archive

text \<open>A JavaScript \<^verbatim>\<open>Error\<close> object with its \<^verbatim>\<open>message\<close>.\<close>

datatype js_error = Error (message: string)

text \<open>The value of \<^verbatim>\<open>err.message || err\<close>: the message when it is not empty, the error
  object otherwise.\<close>

datatype idle_error = Message string | ErrorObject js_error

text \<open>
  Modelled from the spec: the declaration of \<^verbatim>\<open>IUpdate\<close> (the update descriptor:
  version string, product version string, download URL, optional content hash, fast-update
  flag) is not among the sources. A string field the feed's JSON leaves out reads as the
  empty string, and a missing flag as \<open>False\<close>: the code only tests these for truthiness.
\<close>

record IUpdate =
  version :: string
  productVersion :: string
  url :: "string option"
  hash :: "string option"
  supportsFastUpdate :: bool

text \<open>
  Modelled from the spec: the constructors of \<^verbatim>\<open>State\<close> are declared outside the
  sources. The context of a check is the flag "explicit" (\<^verbatim>\<open>!!context\<close>).
\<close>

datatype State =
    Idle UpdateType "idle_error option"
  | CheckingForUpdates bool
  | AvailableForDownload IUpdate
  | Downloading IUpdate
  | Downloaded IUpdate
  | Updating IUpdate
  | Ready IUpdate

datatype StateType =
  T_Idle | T_CheckingForUpdates | T_AvailableForDownload | T_Downloading | T_Downloaded
  | T_Updating | T_Ready

fun stateType :: "State \<Rightarrow> StateType" where
  "stateType (Idle t m) = T_Idle"
| "stateType (CheckingForUpdates c) = T_CheckingForUpdates"
| "stateType (AvailableForDownload u) = T_AvailableForDownload"
| "stateType (Downloading u) = T_Downloading"
| "stateType (Downloaded u) = T_Downloaded"
| "stateType (Updating u) = T_Updating"
| "stateType (Ready u) = T_Ready"

record IAvailableUpdate =
  packagePath :: string
  updateFilePath :: "string option"

text \<open>
  What is fixed for the life of the process: the product description, the cache directory
  (\<^verbatim>\<open>cachePath\<close>, memoized), the memoized \<^verbatim>\<open>getUpdateType()\<close>, the hash function behind
  \<^verbatim>\<open>checksum\<close>, and the regular expression engine on the patterns that \<open>parse\<close> below does
  not read. The cache directory is \<^verbatim>\<open>path.join(tmpdir(), ...)\<close>, an absolute and normalized
  path: a device (a drive, or the root of a share) and the names of the directories from
  its root down.
\<close>

record env =
  quality :: string
  target :: string
  win32MutexName :: string
  cacheDevice :: string
  cacheSegments :: "string list"
  getUpdateType :: UpdateType
  sha1 :: "string \<Rightarrow> string"
  regexpOther :: "string \<Rightarrow> js_error + (string \<Rightarrow> bool)"

text \<open>The outcome of \<^verbatim>\<open>request(...).then(context => download(downloadPath, context))\<close>:
  the whole content is written, or the promise is rejected, with or without a part of the
  content already on disk.\<close>

datatype download_outcome = Complete string | Aborted js_error "string option"

text \<open>What the outside answers during \<^verbatim>\<open>doApplyUpdate\<close>: whether writing the flag file
  fails, and what \<^verbatim>\<open>isActive(readyMutexName)\<close> returns at the first, immediate poll.\<close>

record apply_io =
  writeFileError :: "js_error option"
  isActive0 :: bool

text \<open>What the outside answers during one \<^verbatim>\<open>doCheckForUpdates\<close>.\<close>

record check_io =
  feed :: "js_error + IUpdate option"
  readdirError :: "js_error option"
  unlinkFails :: "string \<Rightarrow> bool"
  downloadOutcome :: download_outcome
  renameError :: "js_error option"
  fastUpdatesEnabled :: bool
  applyIO :: apply_io

text \<open>The data of a telemetry event: \<^verbatim>\<open>{ explicit: !!context }\<close> or
  \<^verbatim>\<open>{ target: product.target }\<close>.\<close>

datatype telemetry_data = Explicit bool | Target string

text \<open>
  Where a check's chain is suspended: at the request of the feed, at the listing of the
  cache directory, at the deletions that have not completed yet, at the test of the
  package file's existence, at the transfer, at the checksum, at the rename. From the
  listing on, the chain holds the update the feed offered.
\<close>

datatype stage =
    AwaitFeed
  | AwaitReaddir IUpdate
  | AwaitUnlinks IUpdate "string list"
  | AwaitExists IUpdate
  | AwaitDownload IUpdate
  | AwaitChecksum IUpdate
  | AwaitRename IUpdate

text \<open>
  A suspended chain: the chain of a check, with its stage, its context (the flag
  "explicit") and what the outside answers to it; or the chain of \<^verbatim>\<open>doApplyUpdate\<close>, which
  waits for the flag file to be written and holds the update it read from the state.
\<close>

datatype task = CheckTask stage bool check_io | ApplyTask IUpdate apply_io

text \<open>
  The service's two fields (\<open>state\<close>, \<open>availableUpdate\<close>), its feed URL, and what it acts
  on: the files (path and content), the requests issued, the telemetry events (name and
  data), the errors logged, the state changes notified, the processes
  spawned (path and arguments), the URLs opened, the spawned children whose exit observer
  has not run yet, the pending polls (each with the update its continuation sets
  \<open>Ready\<close>), and the suspended chains.
\<close>

record world =
  state :: State
  availableUpdate :: "IAvailableUpdate option"
  serviceUrl :: "string option"
  files :: "(string \<times> string) list"
  requests :: "string option list"
  telemetry :: "(string \<times> telemetry_data) list"
  logged :: "js_error list"
  onStateChange :: "State list"
  spawned :: "(string \<times> string list) list"
  opened :: "string option list"
  children :: nat
  polls :: "IUpdate list"
  tasks :: "task list"

subsection \<open>Collaborators\<close>

text \<open>JavaScript truthiness of an optional string: present and not empty.\<close>

fun truthy :: "string option \<Rightarrow> bool" where
  "truthy None = False"
| "truthy (Some s) = (s \<noteq> [])"

text \<open>Modelled from the spec: \<^verbatim>\<open>setState\<close> of the abstract service is outside the sources;
  a state change is the only mutation of the state and notifies the UI sink.\<close>

definition setState :: "State \<Rightarrow> world \<Rightarrow> world" where
  "setState s w = w\<lparr>state := s, onStateChange := onStateChange w @ [s]\<rparr>"

text \<open>The two sinks: \<^verbatim>\<open>telemetryService.publicLog\<close> and \<^verbatim>\<open>logService.error\<close>.\<close>

definition publicLog :: "string \<Rightarrow> telemetry_data \<Rightarrow> world \<Rightarrow> world" where
  "publicLog name d w = w\<lparr>telemetry := telemetry w @ [(name, d)]\<rparr>"

definition logError :: "js_error \<Rightarrow> world \<Rightarrow> world" where
  "logError err w = w\<lparr>logged := logged w @ [err]\<rparr>"

subsection \<open>Paths\<close>

text \<open>
  \<^verbatim>\<open>path.join(cachePath, name)\<close> on Windows joins the two with a backslash and normalizes
  the result: the slash and the backslash both separate segments, an empty segment and
  the segment \<^verbatim>\<open>.\<close> are dropped, a segment \<^verbatim>\<open>..\<close> removes the segment before it (none
  above the root), the segments are joined by backslashes, and a separator at the end of
  the name is kept as one backslash.
\<close>

definition isPathSeparator :: "char \<Rightarrow> bool" where
  "isPathSeparator c = (c = CHR ''/'' \<or> c = CHR 0x5C)"

fun segments :: "string \<Rightarrow> string list" where
  "segments [] = [[]]"
| "segments (c # cs) =
     (if isPathSeparator c then [] # segments cs
      else (case segments cs of [] \<Rightarrow> [[c]] | s # ss \<Rightarrow> (c # s) # ss))"

definition normalizeString :: "string list \<Rightarrow> string list \<Rightarrow> string list" where
  "normalizeString base segs =
     fold (\<lambda>s acc. if s = [] \<or> s = ''.'' then acc
                    else if s = ''..'' then butlast acc
                    else acc @ [s]) segs base"

text \<open>The path of the directory or file under the device that the segments name.\<close>

definition pathOf :: "env \<Rightarrow> string list \<Rightarrow> string" where
  "pathOf e segs =
     cacheDevice e @ (if segs = [] then [CHR 0x5C] else concat (map ((#) (CHR 0x5C)) segs))"

definition cachePath :: "env \<Rightarrow> string" where
  "cachePath e = pathOf e (cacheSegments e)"

definition path_join :: "env \<Rightarrow> string \<Rightarrow> string" where
  "path_join e name =
     (let segs = normalizeString (cacheSegments e) (segments name)
      in pathOf e segs @
         (if segs \<noteq> [] \<and> name \<noteq> [] \<and> isPathSeparator (last name) then [CHR 0x5C] else []))"

text \<open>The name of an entry of a directory: not empty, without a separator, and neither
  \<^verbatim>\<open>.\<close> nor \<^verbatim>\<open>..\<close>.\<close>

definition entryName :: "string \<Rightarrow> bool" where
  "entryName name =
     (name \<noteq> [] \<and> name \<noteq> ''.'' \<and> name \<noteq> ''..'' \<and> list_all (\<lambda>c. \<not> isPathSeparator c) name)"

text \<open>The path of the cache directory followed by a backslash: what the path of each of
  its entries starts with.\<close>

definition dirPrefix :: "env \<Rightarrow> string" where
  "dirPrefix e = cacheDevice e @ concat (map ((#) (CHR 0x5C)) (cacheSegments e)) @ [CHR 0x5C]"

text \<open>
  Modelled from the spec: the file helpers of \<^verbatim>\<open>pfs\<close> (\<^verbatim>\<open>exists\<close>, \<^verbatim>\<open>readdir\<close>,
  \<^verbatim>\<open>unlink\<close>, \<^verbatim>\<open>rename\<close>, \<^verbatim>\<open>writeFile\<close>), \<^verbatim>\<open>request\<close> and \<^verbatim>\<open>download\<close> are outside
  the sources. They act on the files as the pipeline of the spec says: a download writes
  the temporary file, a rename moves it to the target path, a deletion removes an entry,
  and each may fail as the outside decides.
\<close>

definition request :: "string option \<Rightarrow> world \<Rightarrow> world" where
  "request u w = w\<lparr>requests := requests w @ [u]\<rparr>"

definition pfs_exists :: "string \<Rightarrow> world \<Rightarrow> bool" where
  "pfs_exists p w = (map_of (files w) p \<noteq> None)"

definition pfs_writeFile :: "string \<Rightarrow> string \<Rightarrow> world \<Rightarrow> world" where
  "pfs_writeFile p c w = w\<lparr>files := AList.update p c (files w)\<rparr>"

text \<open>The name of the entry of the cache directory that the path \<open>p\<close> is, if it is one.\<close>

definition entryOf :: "env \<Rightarrow> string \<Rightarrow> string option" where
  "entryOf e p =
     (let pre = dirPrefix e; name = drop (length pre) p
      in if take (length pre) p = pre \<and> entryName name then Some name else None)"

text \<open>\<^verbatim>\<open>pfs.readdir(cachePath)\<close>.\<close>

definition pfs_readdir :: "env \<Rightarrow> world \<Rightarrow> string list" where
  "pfs_readdir e w = List.map_filter (entryOf e) (map fst (files w))"

text \<open>\<^verbatim>\<open>pfs.unlink(p).then(null, () => null)\<close>: a deletion that fails changes nothing and
  its error is dropped.\<close>

definition pfs_unlink :: "check_io \<Rightarrow> string \<Rightarrow> world \<Rightarrow> world" where
  "pfs_unlink io p w = (if unlinkFails io p then w else w\<lparr>files := AList.delete p (files w)\<rparr>)"

definition pfs_rename :: "check_io \<Rightarrow> string \<Rightarrow> string \<Rightarrow> world \<Rightarrow> js_error option \<times> world" where
  "pfs_rename io src dst w =
     (case renameError io of
        Some err \<Rightarrow> (Some err, w)
      | None \<Rightarrow>
          (case map_of (files w) src of
             None \<Rightarrow> (Some (Error ''ENOENT''), w)
           | Some c \<Rightarrow> (None, w\<lparr>files := AList.update dst c (AList.delete src (files w))\<rparr>)))"

text \<open>
  Modelled from the spec: \<^verbatim>\<open>checksum\<close> is outside the sources. It computes the hash of the
  file at the path and compares it with the expected one; a mismatch rejects.
\<close>

definition checksum :: "env \<Rightarrow> string \<Rightarrow> string option \<Rightarrow> world \<Rightarrow> js_error option" where
  "checksum e p expected w =
     (case map_of (files w) p of
        None \<Rightarrow> Some (Error ''ENOENT'')
      | Some c \<Rightarrow> if Some (sha1 e c) \<noteq> expected then Some (Error ''Hash mismatch'') else None)"

subsection \<open>The regular expression of the cleanup filter\<close>

text \<open>
  \<^verbatim>\<open>new RegExp(p).test(one)\<close> for the patterns made of literal characters, the wildcard
  \<^verbatim>\<open>.\<close>, the escape \<^verbatim>\<open>\.\<close> and the assertion \<^verbatim>\<open>$\<close>. Any other pattern is left to
  \<open>regexpOther\<close>. Strings are sequences of code units below 256.
\<close>

datatype item = Lit char | AnyChar | EndAnchor

fun parse :: "string \<Rightarrow> item list option" where
  "parse [] = Some []"
| "parse (c # cs) =
     (if c = CHR 0x5C then
        (case cs of
           [] \<Rightarrow> None
         | d # ds \<Rightarrow> if d = CHR ''.'' then map_option ((#) (Lit d)) (parse ds) else None)
      else if c = CHR ''$'' then map_option ((#) EndAnchor) (parse cs)
      else if c = CHR ''.'' then map_option ((#) AnyChar) (parse cs)
      else if c \<in> set ''^*+?()[]{}|'' then None
      else map_option ((#) (Lit c)) (parse cs))"

fun matchHere :: "item list \<Rightarrow> string \<Rightarrow> bool" where
  "matchHere [] s = True"
| "matchHere (EndAnchor # ps) s = (s = [] \<and> matchHere ps s)"
| "matchHere (Lit c # ps) [] = False"
| "matchHere (Lit c # ps) (x # s) = (x = c \<and> matchHere ps s)"
| "matchHere (AnyChar # ps) [] = False"
| "matchHere (AnyChar # ps) (x # s) = (x \<noteq> CHR 0x0A \<and> x \<noteq> CHR 0x0D \<and> matchHere ps s)"

text \<open>\<^verbatim>\<open>test\<close> tries every start position, the end of the string included.\<close>

fun search :: "item list \<Rightarrow> string \<Rightarrow> bool" where
  "search ps [] = matchHere ps []"
| "search ps (x # s) = (matchHere ps (x # s) \<or> search ps s)"

definition RegExp :: "env \<Rightarrow> string \<Rightarrow> js_error + (string \<Rightarrow> bool)" where
  "RegExp e p = (case parse p of Some ps \<Rightarrow> Inr (search ps) | None \<Rightarrow> regexpOther e p)"

subsection \<open>cleanup\<close>

text \<open>
  \<^verbatim>\<open>exceptVersion ? one => !(new RegExp(`${product.quality}-${exceptVersion}\\.exe$`).test(one)) : () => true\<close>.
  The expression is built at each call of the filter, so a pattern the engine refuses
  throws at the first entry.
\<close>

definition cleanupFilter :: "env \<Rightarrow> string option \<Rightarrow> string \<Rightarrow> js_error + bool" where
  "cleanupFilter e exceptVersion one =
     (case exceptVersion of
        None \<Rightarrow> Inr True
      | Some v \<Rightarrow>
          if v = [] then Inr True
          else (case RegExp e (quality e @ ''-'' @ v @ [CHR 0x5C] @ ''.exe$'') of
                  Inl err \<Rightarrow> Inl err
                | Inr test \<Rightarrow> Inr (\<not> test one)))"

text \<open>\<^verbatim>\<open>Array.prototype.filter\<close> with a callback that may throw.\<close>

fun filterThrowing :: "('a \<Rightarrow> js_error + bool) \<Rightarrow> 'a list \<Rightarrow> js_error + 'a list" where
  "filterThrowing f [] = Inr []"
| "filterThrowing f (x # xs) =
     (case f x of
        Inl err \<Rightarrow> Inl err
      | Inr b \<Rightarrow>
          (case filterThrowing f xs of
             Inl err \<Rightarrow> Inl err
           | Inr ys \<Rightarrow> Inr (if b then x # ys else ys)))"

text \<open>The callback of \<^verbatim>\<open>pfs.readdir\<close>: the entries to delete, or the rejection of the
  listing or of the filter.\<close>

definition cleanupList :: "env \<Rightarrow> check_io \<Rightarrow> string option \<Rightarrow> world \<Rightarrow> js_error + string list" where
  "cleanupList e io exceptVersion w =
     (case readdirError io of
        Some err \<Rightarrow> Inl err
      | None \<Rightarrow> filterThrowing (cleanupFilter e exceptVersion) (pfs_readdir e w))"

text \<open>\<^verbatim>\<open>cleanup\<close> when nothing else happens between its listing and its deletions.\<close>

definition cleanup :: "env \<Rightarrow> check_io \<Rightarrow> string option \<Rightarrow> world \<Rightarrow> js_error option \<times> world" where
  "cleanup e io exceptVersion w =
     (case cleanupList e io exceptVersion w of
        Inl err \<Rightarrow> (Some err, w)
      | Inr doomed \<Rightarrow> (None, fold (\<lambda>one. pfs_unlink io (path_join e one)) doomed w))"

subsection \<open>The download step\<close>

definition getUpdatePackagePath :: "env \<Rightarrow> string \<Rightarrow> string" where
  "getUpdatePackagePath e v = path_join e (''CodeSetup-'' @ quality e @ ''-'' @ v @ ''.exe'')"

text \<open>The completion of \<^verbatim>\<open>download(downloadPath, context)\<close>.\<close>

definition download :: "check_io \<Rightarrow> string \<Rightarrow> world \<Rightarrow> js_error option \<times> world" where
  "download io downloadPath w =
     (case downloadOutcome io of
        Aborted err part \<Rightarrow>
          (Some err, (case part of None \<Rightarrow> w | Some c \<Rightarrow> pfs_writeFile downloadPath c w))
      | Complete c \<Rightarrow> (None, pfs_writeFile downloadPath c w))"

text \<open>
  The body of \<^verbatim>\<open>this.getUpdatePackagePath(update.version).then(...)\<close> when nothing else
  happens between its calls: return the cached package if it exists; otherwise request,
  download to \<^verbatim>\<open>.tmp\<close>, verify when a hash is given, and rename.
\<close>

definition downloadStep :: "env \<Rightarrow> check_io \<Rightarrow> IUpdate \<Rightarrow> world \<Rightarrow> (js_error + string) \<times> world" where
  "downloadStep e io update w =
     (let updatePackagePath = getUpdatePackagePath e (version update) in
      if pfs_exists updatePackagePath w then (Inr updatePackagePath, w)
      else
        let downloadPath = updatePackagePath @ ''.tmp'';
            w1 = request (url update) w
        in (case download io downloadPath w1 of
              (Some err, w2) \<Rightarrow> (Inl err, w2)
            | (None, w2) \<Rightarrow>
                (case (if truthy (hash update) then checksum e downloadPath (hash update) w2 else None) of
                   Some err \<Rightarrow> (Inl err, w2)
                 | None \<Rightarrow>
                     (case pfs_rename io downloadPath updatePackagePath w2 of
                        (Some err, w3) \<Rightarrow> (Inl err, w3)
                      | (None, w3) \<Rightarrow> (Inr updatePackagePath, w3)))))"

subsection \<open>pollUntil\<close>

text \<open>
  \<^verbatim>\<open>pollUntil(fn)\<close> calls \<open>fn\<close> again and again, one timeout apart, and resolves at the
  first call that returns true. Here \<open>fn n\<close> is what the \<open>n\<close>-th call returns, and the result
  is the number of the call that resolved the promise; the loop may run forever, and then
  the result is \<open>None\<close>.
\<close>

partial_function (option) pollUntil :: "(nat \<Rightarrow> bool) \<Rightarrow> nat \<Rightarrow> nat option" where
  "pollUntil fn n = (if fn n then Some n else pollUntil fn (Suc n))"

text \<open>
  One run of the closure \<^verbatim>\<open>poll\<close> of the poll started by \<^verbatim>\<open>doApplyUpdate\<close>, where
  \<open>active\<close> is what \<^verbatim>\<open>isActive(readyMutexName)\<close> returns: resolve, which runs the
  continuation \<^verbatim>\<open>() => this.setState(State.Ready(update))\<close>, or set the timer again.
\<close>

definition poll :: "bool \<Rightarrow> IUpdate \<Rightarrow> world \<Rightarrow> world" where
  "poll active update w =
     (if active then setState (Ready update) w else w\<lparr>polls := polls w @ [update]\<rparr>)"

subsection \<open>doApplyUpdate\<close>

definition spawn :: "string \<Rightarrow> string list \<Rightarrow> world \<Rightarrow> world" where
  "spawn p args w = w\<lparr>spawned := spawned w @ [(p, args)]\<rparr>"

text \<open>\<^verbatim>\<open>child.once('exit', ...)\<close>: one more child whose exit is observed.\<close>

definition onceExit :: "world \<Rightarrow> world" where
  "onceExit w = w\<lparr>children := Suc (children w)\<rparr>"

definition flagFilePath :: "env \<Rightarrow> string \<Rightarrow> string" where
  "flagFilePath e v = path_join e (''CodeSetup-'' @ quality e @ ''-'' @ v @ ''.flag'')"

text \<open>The arguments of the background installer.\<close>

definition installerArgs :: "string \<Rightarrow> string list" where
  "installerArgs flagPath =
     [''/verysilent'', ''/update='' @ [CHR 0x22] @ flagPath @ [CHR 0x22], ''/nocloseapplications'',
      ''/mergetasks=runcode,!desktopicon,!quicklaunchicon'']"

text \<open>
  The part of \<^verbatim>\<open>doApplyUpdate\<close> after the two guards, up to the call of
  \<^verbatim>\<open>pfs.writeFile\<close>; \<open>a\<close> is \<^verbatim>\<open>this.availableUpdate\<close>. The cache path is known by then (an
  available update comes out of a download into it), so its callback runs at once.
\<close>

definition applyAvailable :: "env \<Rightarrow> apply_io \<Rightarrow> IUpdate \<Rightarrow> IAvailableUpdate \<Rightarrow> world \<Rightarrow> world" where
  "applyAvailable e aio update a w =
     (let w1 = setState (Updating update) w;
          flagPath = flagFilePath e (version update);
          w2 = w1\<lparr>availableUpdate := Some (a\<lparr>updateFilePath := Some flagPath\<rparr>)\<rparr>
      in w2\<lparr>tasks := tasks w2 @ [ApplyTask update aio]\<rparr>)"

text \<open>The call of \<^verbatim>\<open>doApplyUpdate\<close>: what runs before the promise it returns is settled.\<close>

definition doApplyUpdate :: "env \<Rightarrow> apply_io \<Rightarrow> world \<Rightarrow> world" where
  "doApplyUpdate e aio w =
     (if stateType (state w) \<noteq> T_Downloaded \<and> stateType (state w) \<noteq> T_Downloading then w
      else
        (case availableUpdate w of
           None \<Rightarrow> w
         | Some a \<Rightarrow>
             (case state w of
                Downloaded update \<Rightarrow> applyAvailable e aio update a w
              | Downloading update \<Rightarrow> applyAvailable e aio update a w
              | _ \<Rightarrow> w)))"

text \<open>The value of \<^verbatim>\<open>`${this.availableUpdate.updateFilePath}`\<close>.\<close>

definition updateFilePathText :: "IAvailableUpdate \<Rightarrow> string" where
  "updateFilePathText a = (case updateFilePath a of None \<Rightarrow> ''undefined'' | Some p \<Rightarrow> p)"

text \<open>
  The callback of \<^verbatim>\<open>pfs.writeFile(this.availableUpdate.updateFilePath, 'flag')\<close>, whose
  path was read when \<^verbatim>\<open>doApplyUpdate\<close> was called. The callback reads
  \<^verbatim>\<open>this.availableUpdate\<close> again, and throws a \<^verbatim>\<open>TypeError\<close> when it is \<^verbatim>\<open>undefined\<close> by
  then. The result is the rejection of the promise \<^verbatim>\<open>doApplyUpdate\<close> returned, if any,
  and the world.
\<close>

definition onFlagWritten :: "env \<Rightarrow> apply_io \<Rightarrow> IUpdate \<Rightarrow> world \<Rightarrow> js_error option \<times> world" where
  "onFlagWritten e aio update w =
     (case writeFileError aio of
        Some err \<Rightarrow> (Some err, w)
      | None \<Rightarrow>
          let w1 = pfs_writeFile (flagFilePath e (version update)) ''flag'' w in
          (case availableUpdate w1 of
             None \<Rightarrow> (Some (Error ''TypeError''), w1)
           | Some a \<Rightarrow>
               let w2 = spawn (packagePath a) (installerArgs (updateFilePathText a)) w1;
                   w3 = onceExit w2
               in (None, poll (isActive0 aio) update w3)))"

text \<open>The exit observer of a spawned child.\<close>

definition onChildExit :: "env \<Rightarrow> world \<Rightarrow> world" where
  "onChildExit e w = setState (Idle (getUpdateType e) None) (w\<lparr>availableUpdate := None\<rparr>)"

subsection \<open>doCheckForUpdates\<close>

text \<open>How a callback of a check's chain ends: the chain is suspended at its next call, or
  it is over (no update, an update offered for download, the package at its path), or it
  is rejected.\<close>

datatype outcome = Suspended stage | NotAvailable | Offered | Acquired string | Rejected js_error

text \<open>The last continuation of the download: \<^verbatim>\<open>.then(packagePath => { ... })\<close>. The promise
  \<^verbatim>\<open>doApplyUpdate\<close> returns is dropped there.\<close>

definition afterDownload :: "env \<Rightarrow> check_io \<Rightarrow> IUpdate \<Rightarrow> string \<Rightarrow> world \<Rightarrow> world" where
  "afterDownload e io update p w =
     (let w1 = w\<lparr>availableUpdate := Some \<lparr>packagePath = p, updateFilePath = None\<rparr>\<rparr> in
      if fastUpdatesEnabled io \<and> supportsFastUpdate update then
        (if target e = ''user'' then doApplyUpdate e (applyIO io) w1
         else setState (Downloaded update) w1)
      else setState (Ready update) w1)"

definition notAvailable :: "env \<Rightarrow> bool \<Rightarrow> world \<Rightarrow> world" where
  "notAvailable e context w =
     setState (Idle (getUpdateType e) None) (publicLog ''update:notAvailable'' (Explicit context) w)"

text \<open>The continuation \<^verbatim>\<open>.then(update => { ... })\<close> of the feed request, up to the listing
  of the cache directory that \<^verbatim>\<open>cleanup\<close> starts.\<close>

definition onUpdate :: "env \<Rightarrow> bool \<Rightarrow> IUpdate option \<Rightarrow> world \<Rightarrow> outcome \<times> world" where
  "onUpdate e context upd w =
     (case upd of
        None \<Rightarrow> (NotAvailable, notAvailable e context w)
      | Some update \<Rightarrow>
          if \<not> truthy (url update) \<or> version update = [] \<or> productVersion update = []
          then (NotAvailable, notAvailable e context w)
          else if getUpdateType e = Archive
          then (Offered, setState (AvailableForDownload update) w)
          else (Suspended (AwaitReaddir update), setState (Downloading update) w))"

text \<open>The stage after the listing or after a deletion: the deletions still to complete,
  or, when there is none, the test of the package file's existence.\<close>

definition awaitUnlinks :: "IUpdate \<Rightarrow> string list \<Rightarrow> stage" where
  "awaitUnlinks update pending =
     (if pending = [] then AwaitExists update else AwaitUnlinks update pending)"

text \<open>The callback of the listing in \<^verbatim>\<open>cleanup\<close>: every deletion is started.\<close>

definition onReaddir :: "env \<Rightarrow> check_io \<Rightarrow> IUpdate \<Rightarrow> world \<Rightarrow> outcome \<times> world" where
  "onReaddir e io update w =
     (case cleanupList e io (Some (version update)) w of
        Inl err \<Rightarrow> (Rejected err, w)
      | Inr doomed \<Rightarrow> (Suspended (awaitUnlinks update doomed), w))"

text \<open>A deletion completes. The deletions act on different entries, so the order in
  which they complete does not matter; they complete in the order of the list.\<close>

fun onUnlinked :: "env \<Rightarrow> check_io \<Rightarrow> IUpdate \<Rightarrow> string list \<Rightarrow> world \<Rightarrow> outcome \<times> world" where
  "onUnlinked e io update [] w = (Suspended (AwaitExists update), w)"
| "onUnlinked e io update (one # pending) w =
     (Suspended (awaitUnlinks update pending), pfs_unlink io (path_join e one) w)"

text \<open>The callback of \<^verbatim>\<open>pfs.exists(updatePackagePath)\<close>.\<close>

definition onExists :: "env \<Rightarrow> check_io \<Rightarrow> IUpdate \<Rightarrow> world \<Rightarrow> outcome \<times> world" where
  "onExists e io update w =
     (let updatePackagePath = getUpdatePackagePath e (version update) in
      if pfs_exists updatePackagePath w
      then (Acquired updatePackagePath, afterDownload e io update updatePackagePath w)
      else (Suspended (AwaitDownload update), request (url update) w))"

text \<open>The transfer completes; \<^verbatim>\<open>hash ? () => checksum(...) : () => null\<close> is next.\<close>

definition onDownload :: "env \<Rightarrow> check_io \<Rightarrow> IUpdate \<Rightarrow> world \<Rightarrow> outcome \<times> world" where
  "onDownload e io update w =
     (case download io (getUpdatePackagePath e (version update) @ ''.tmp'') w of
        (Some err, w1) \<Rightarrow> (Rejected err, w1)
      | (None, w1) \<Rightarrow>
          (Suspended (if truthy (hash update) then AwaitChecksum update else AwaitRename update), w1))"

definition onChecksum :: "env \<Rightarrow> check_io \<Rightarrow> IUpdate \<Rightarrow> world \<Rightarrow> outcome \<times> world" where
  "onChecksum e io update w =
     (case checksum e (getUpdatePackagePath e (version update) @ ''.tmp'') (hash update) w of
        Some err \<Rightarrow> (Rejected err, w)
      | None \<Rightarrow> (Suspended (AwaitRename update), w))"

definition onRename :: "env \<Rightarrow> check_io \<Rightarrow> IUpdate \<Rightarrow> world \<Rightarrow> outcome \<times> world" where
  "onRename e io update w =
     (let updatePackagePath = getUpdatePackagePath e (version update) in
      case pfs_rename io (updatePackagePath @ ''.tmp'') updatePackagePath w of
        (Some err, w1) \<Rightarrow> (Rejected err, w1)
      | (None, w1) \<Rightarrow> (Acquired updatePackagePath, afterDownload e io update updatePackagePath w1))"

text \<open>The next callback of a check's chain suspended at the stage.\<close>

fun resume :: "env \<Rightarrow> check_io \<Rightarrow> bool \<Rightarrow> stage \<Rightarrow> world \<Rightarrow> outcome \<times> world" where
  "resume e io context AwaitFeed w =
     (case feed io of
        Inl err \<Rightarrow> (Rejected err, w)
      | Inr upd \<Rightarrow> onUpdate e context upd w)"
| "resume e io context (AwaitReaddir update) w = onReaddir e io update w"
| "resume e io context (AwaitUnlinks update pending) w = onUnlinked e io update pending w"
| "resume e io context (AwaitExists update) w = onExists e io update w"
| "resume e io context (AwaitDownload update) w = onDownload e io update w"
| "resume e io context (AwaitChecksum update) w = onChecksum e io update w"
| "resume e io context (AwaitRename update) w = onRename e io update w"

text \<open>The handler \<^verbatim>\<open>.then(null, err => { ... })\<close> at the end of the chain.\<close>

definition messageOrError :: "js_error \<Rightarrow> idle_error" where
  "messageOrError err = (if message err \<noteq> [] then Message (message err) else ErrorObject err)"

definition onError :: "env \<Rightarrow> bool \<Rightarrow> js_error \<Rightarrow> world \<Rightarrow> world" where
  "onError e context err w =
     setState (Idle (getUpdateType e) (Some (messageOrError err)))
       (publicLog ''update:notAvailable'' (Explicit context) (logError err w))"

text \<open>The call of \<^verbatim>\<open>doCheckForUpdates\<close>: it returns once the feed is requested.\<close>

definition doCheckForUpdates :: "env \<Rightarrow> check_io \<Rightarrow> bool \<Rightarrow> world \<Rightarrow> world" where
  "doCheckForUpdates e io context w =
     (case serviceUrl w of
        None \<Rightarrow> w
      | Some u \<Rightarrow>
          if u = [] then w
          else
            let w1 = setState (CheckingForUpdates context) w;
                w2 = request (Some u) w1
            in w2\<lparr>tasks := tasks w2 @ [CheckTask AwaitFeed context io]\<rparr>)"

subsection \<open>doDownloadUpdate and doQuitAndInstall\<close>

definition doDownloadUpdate :: "env \<Rightarrow> IUpdate \<Rightarrow> world \<Rightarrow> world" where
  "doDownloadUpdate e update w =
     setState (Idle (getUpdateType e) None) (w\<lparr>opened := opened w @ [url update]\<rparr>)"

definition fs_unlinkSync :: "string \<Rightarrow> world \<Rightarrow> js_error option \<times> world" where
  "fs_unlinkSync p w =
     (if pfs_exists p w then (None, w\<lparr>files := AList.delete p (files w)\<rparr>)
      else (Some (Error ''ENOENT''), w))"

text \<open>
  The result is the exception thrown, if any, and the world. Reading a property of
  \<^verbatim>\<open>this.availableUpdate\<close> when it is \<^verbatim>\<open>undefined\<close> throws a \<^verbatim>\<open>TypeError\<close>; both
  branches read one before anything else happens.
\<close>

definition doQuitAndInstall :: "env \<Rightarrow> world \<Rightarrow> js_error option \<times> world" where
  "doQuitAndInstall e w =
     (case state w of
        Ready update \<Rightarrow>
          (case availableUpdate w of
             None \<Rightarrow> (Some (Error ''TypeError''), w)
           | Some a \<Rightarrow>
               (case updateFilePath a of
                  None \<Rightarrow>
                    (None, spawn (packagePath a)
                       [''/silent'', ''/mergetasks=runcode,!desktopicon,!quicklaunchicon''] w)
                | Some flagPath \<Rightarrow>
                    if supportsFastUpdate update \<and> flagPath \<noteq> [] then fs_unlinkSync flagPath w
                    else (None, spawn (packagePath a)
                       [''/silent'', ''/mergetasks=runcode,!desktopicon,!quicklaunchicon''] w)))
      | _ \<Rightarrow> (None, w))"

subsection \<open>The service over time\<close>

text \<open>
  Modelled from the spec: the public operations of the abstract service are outside the
  sources. \<^verbatim>\<open>checkForUpdates\<close> is a no-op unless the state is \<open>Idle\<close>,
  \<^verbatim>\<open>downloadUpdate\<close> acts from \<open>AvailableForDownload\<close>, \<^verbatim>\<open>applyUpdate\<close> and
  \<^verbatim>\<open>quitAndInstall\<close> have the guards of their \<^verbatim>\<open>do\<close> methods. Between two operations a
  poll's timer may fire (\<open>PollTimer k active\<close>: the \<open>k\<close>-th pending poll runs and
  \<^verbatim>\<open>isActive\<close> returns \<open>active\<close>), a child may exit, and the call that the \<open>k\<close>-th
  suspended chain waits for may complete (\<open>Resume k\<close>).
\<close>

datatype event =
    CheckForUpdates bool check_io
  | DownloadUpdate
  | ApplyUpdate apply_io
  | QuitAndInstall
  | PollTimer nat bool
  | ChildExit
  | Resume nat

definition onPollTimer :: "nat \<Rightarrow> bool \<Rightarrow> world \<Rightarrow> world" where
  "onPollTimer k active w =
     (if k < length (polls w)
      then poll active (polls w ! k) (w\<lparr>polls := take k (polls w) @ drop (Suc k) (polls w)\<rparr>)
      else w)"

text \<open>A chain that is over leaves the suspended ones.\<close>

definition dropTask :: "nat \<Rightarrow> world \<Rightarrow> world" where
  "dropTask k w = w\<lparr>tasks := take k (tasks w) @ drop (Suc k) (tasks w)\<rparr>"

text \<open>The \<open>k\<close>-th suspended chain, a check's, runs its next callback: it is suspended
  again, or it is rejected, which its last handler takes, or it is over.\<close>

definition resumeCheck :: "env \<Rightarrow> nat \<Rightarrow> stage \<Rightarrow> bool \<Rightarrow> check_io \<Rightarrow> world \<Rightarrow> world" where
  "resumeCheck e k st context io w =
     (case resume e io context st w of
        (Suspended st', w') \<Rightarrow> w'\<lparr>tasks := (tasks w')[k := CheckTask st' context io]\<rparr>
      | (Rejected err, w') \<Rightarrow> onError e context err (dropTask k w')
      | (NotAvailable, w') \<Rightarrow> dropTask k w'
      | (Offered, w') \<Rightarrow> dropTask k w'
      | (Acquired p, w') \<Rightarrow> dropTask k w')"

definition onResume :: "env \<Rightarrow> nat \<Rightarrow> world \<Rightarrow> world" where
  "onResume e k w =
     (if k < length (tasks w) then
        (case tasks w ! k of
           CheckTask st context io \<Rightarrow> resumeCheck e k st context io w
         | ApplyTask update aio \<Rightarrow> dropTask k (snd (onFlagWritten e aio update w)))
      else w)"

fun fire :: "env \<Rightarrow> event \<Rightarrow> world \<Rightarrow> world" where
  "fire e (CheckForUpdates context io) w =
     (if stateType (state w) = T_Idle then doCheckForUpdates e io context w else w)"
| "fire e DownloadUpdate w =
     (case state w of AvailableForDownload update \<Rightarrow> doDownloadUpdate e update w | _ \<Rightarrow> w)"
| "fire e (ApplyUpdate aio) w = doApplyUpdate e aio w"
| "fire e QuitAndInstall w = snd (doQuitAndInstall e w)"
| "fire e (PollTimer k active) w = onPollTimer k active w"
| "fire e ChildExit w =
     (if 0 < children w then onChildExit e (w\<lparr>children := children w - 1\<rparr>) else w)"
| "fire e (Resume k) w = onResume e k w"

definition run :: "env \<Rightarrow> event list \<Rightarrow> world \<Rightarrow> world" where
  "run e evs w = fold (fire e) evs w"

text \<open>The world after the constructor: \<open>Idle\<close>, nothing available, and the telemetry event
  of a setup installation.\<close>

definition initial :: "env \<Rightarrow> string option \<Rightarrow> (string \<times> string) list \<Rightarrow> world" where
  "initial e u fs =
     \<lparr>state = Idle (getUpdateType e) None, availableUpdate = None, serviceUrl = u, files = fs,
      requests = [],
      telemetry = (if getUpdateType e = Setup
                   then [(''update:win32SetupTarget'', Target (target e))] else []),
      logged = [], onStateChange = [], spawned = [], opened = [], children = 0, polls = [],
      tasks = []\<rparr>"

text \<open>The state changes notified between two worlds.\<close>

definition notified :: "world \<Rightarrow> world \<Rightarrow> State list" where
  "notified w w' = drop (length (onStateChange w)) (onStateChange w')"


subsection \<open>Notions of the properties\<close>

text \<open>\<^verbatim>\<open>!update || !update.url || !update.version || !update.productVersion\<close>: the feed
  offers nothing.\<close>

definition updateMissing :: "IUpdate option \<Rightarrow> bool" where
  "updateMissing upd =
     (case upd of
        None \<Rightarrow> True
      | Some update \<Rightarrow> \<not> truthy (url update) \<or> version update = [] \<or> productVersion update = [])"

text \<open>A poll's timer that finds the readiness signal inactive.\<close>

fun inactivePoll :: "event \<Rightarrow> bool" where
  "inactivePoll (PollTimer k active) = (\<not> active)"
| "inactivePoll ev = False"


text \<open>The start of a check.\<close>

fun isStart :: "event \<Rightarrow> bool" where
  "isStart (CheckForUpdates context io) = True"
| "isStart ev = False"

text \<open>The start of a check, or a callback of a suspended chain.\<close>

fun isCheck :: "event \<Rightarrow> bool" where
  "isCheck (CheckForUpdates context io) = True"
| "isCheck (Resume k) = True"
| "isCheck ev = False"

text \<open>The events after which a check's chain that nothing interrupts is over: its
  callbacks one after the other, the chain being the first suspended one.\<close>

definition resumes :: "nat \<Rightarrow> event list" where
  "resumes n = replicate n (Resume 0)"

text \<open>The characters the regular expression syntax gives a meaning to, the wildcard
  \<^verbatim>\<open>.\<close> aside, and the item a character outside them stands for.\<close>

definition special :: "char \<Rightarrow> bool" where
  "special c = (c = CHR 0x5C \<or> c = CHR ''$'' \<or> c \<in> set ''^*+?()[]{}|'')"

definition itemOf :: "char \<Rightarrow> item" where
  "itemOf c = (if c = CHR ''.'' then AnyChar else Lit c)"

text \<open>The timers of a single pending poll, where \<open>fn j\<close> is what the \<open>j\<close>-th call of
  \<^verbatim>\<open>isActive\<close> returns (the call number 0 is the immediate one).\<close>

definition timers :: "(nat \<Rightarrow> bool) \<Rightarrow> nat \<Rightarrow> event list" where
  "timers fn k = map (\<lambda>j. PollTimer 0 (fn j)) [1..<Suc k]"

subsection \<open>Concrete inputs\<close>

text \<open>A per-user setup installation of the quality \<open>stable\<close>, with the cache directory
  \<^verbatim>\<open>C:\T\<close>, a hash function that gives \<open>abc123\<close> on the content \<open>setup\<close> and \<open>def456\<close> on
  anything else, and an engine that refuses every pattern \<open>parse\<close> does not read.\<close>

definition ex_env :: env where
  "ex_env =
     \<lparr>quality = ''stable'', target = ''user'', win32MutexName = ''vscode'',
      cacheDevice = ''C:'', cacheSegments = [''T''],
      getUpdateType = Setup,
      sha1 = (\<lambda>c. if c = ''setup'' then ''abc123'' else ''def456''),
      regexpOther = (\<lambda>p. Inl (Error ''SyntaxError''))\<rparr>"

definition ex_update :: IUpdate where
  "ex_update =
     \<lparr>version = ''2.0.0'', productVersion = ''2.0.0'', url = Some ''https://x/pkg'',
      hash = Some ''abc123'', supportsFastUpdate = True\<rparr>"

definition ex_apply_io :: apply_io where
  "ex_apply_io = \<lparr>writeFileError = None, isActive0 = False\<rparr>"

text \<open>The feed offers \<open>ex_update\<close>, every file operation succeeds, the transfer delivers
  the content \<open>setup\<close>, and fast updates are enabled.\<close>

definition ex_io :: check_io where
  "ex_io =
     \<lparr>feed = Inr (Some ex_update), readdirError = None, unlinkFails = (\<lambda>p. False),
      downloadOutcome = Complete ''setup'', renameError = None, fastUpdatesEnabled = True,
      applyIO = ex_apply_io\<rparr>"

text \<open>A cache directory with the package of version 2.0.0, a copy of it under another name,
  and two older packages; the installer of version 1.0.0 is still running, so deleting it
  fails.\<close>

definition crowded_world :: world where
  "crowded_world =
     initial ex_env (Some ''https://feed'')
       [(path_join ex_env ''CodeSetup-stable-2.0.0.exe'', ''setup''),
        (path_join ex_env ''Backup-stable-2.0.0.exe'', ''setup''),
        (path_join ex_env ''CodeSetup-stable-1.0.0.exe'', ''old''),
        (path_join ex_env ''CodeSetup-stable-1.5.0.exe'', ''older'')]"

definition locked_io :: check_io where
  "locked_io = ex_io\<lparr>unlinkFails := (\<lambda>p. p = path_join ex_env ''CodeSetup-stable-1.0.0.exe'')\<rparr>"

text \<open>The pattern \<^verbatim>\<open>stable-2.0.0\.exe$\<close> as \<open>parse\<close> reads it.\<close>

definition ex_items :: "item list" where
  "ex_items =
     map Lit ''stable-2'' @ [AnyChar, Lit CHR ''0'', AnyChar, Lit CHR ''0'', Lit CHR ''.'',
       Lit CHR ''e'', Lit CHR ''x'', Lit CHR ''e'', EndAnchor]"

text \<open>A world in which the package of version 2.0.0 is in the cache.\<close>

definition cached_world :: world where
  "cached_world =
     initial ex_env (Some ''https://feed'') [(getUpdatePackagePath ex_env ''2.0.0'', ''setup'')]"

text \<open>The world after the constructor, with an empty cache.\<close>

definition ex_world :: world where
  "ex_world = initial ex_env (Some ''https://feed'') []"

text \<open>The transfer delivers a content whose checksum is not the descriptor's.\<close>

definition mismatch_io :: check_io where
  "mismatch_io = ex_io\<lparr>downloadOutcome := Complete ''corrupt''\<rparr>"

text \<open>The feed offers version 2.0.0 without a hash, and the transfer delivers the content
  \<open>corrupt\<close>.\<close>

definition unhashed_io :: check_io where
  "unhashed_io =
     ex_io\<lparr>feed := Inr (Some (ex_update\<lparr>hash := None\<rparr>)), downloadOutcome := Complete ''corrupt''\<rparr>"



text \<open>Fast updates are disabled.\<close>

definition plain_io :: check_io where
  "plain_io = ex_io\<lparr>fastUpdatesEnabled := False\<rparr>"

text \<open>The feed answers with an empty body.\<close>

definition empty_io :: check_io where
  "empty_io = ex_io\<lparr>feed := Inr None\<rparr>"

text \<open>The same installation, system-wide.\<close>

definition system_env :: env where
  "system_env = ex_env\<lparr>target := ''system''\<rparr>"

text \<open>
  A background check of the per-user installation that nothing interrupts: the feed
  answers, the empty cache is listed, the package is not there, the transfer, the
  checksum and the rename complete, and the flag file is written. After it the installer
  runs and the poll is pending.
\<close>

definition polling_world :: world where
  "polling_world = run ex_env (CheckForUpdates False ex_io # resumes 7) ex_world"

text \<open>A background check in which the transfer delivers a content whose checksum is not
  the descriptor's, up to the end of the transfer: the chain waits for the checksum.\<close>

definition mismatch_world :: world where
  "mismatch_world = run ex_env (CheckForUpdates False mismatch_io # resumes 4) ex_world"



text \<open>After a background check of the system-wide installation: \<open>Downloaded\<close>.\<close>

definition downloaded_world :: world where
  "downloaded_world = run system_env (CheckForUpdates False ex_io # resumes 6) ex_world"

text \<open>A readiness signal that never becomes active, and one that is active from the third
  call on.\<close>

definition never_active :: "nat \<Rightarrow> bool" where
  "never_active n = False"

definition active_from_2 :: "nat \<Rightarrow> bool" where
  "active_from_2 n = (2 \<le> n)"

section \<open>Properties\<close>

subsection \<open>Paths, files and directory entries\<close>

lemma segments_notNil: "segments s \<noteq> []"
  by (induction s) (simp_all split: list.split)

lemma segments_entry: "list_all (\<lambda>c. \<not> isPathSeparator c) s \<Longrightarrow> segments s = [s]"
  by (induction s) simp_all

lemma segments_append:
  "list_all (\<lambda>c. \<not> isPathSeparator c) t \<Longrightarrow>
     segments (s @ t) = butlast (segments s) @ [last (segments s) @ t]"
proof (induction s)
  case Nil
  then show ?case by (simp add: segments_entry)
next
  case (Cons c s)
  then have ih: "segments (s @ t) = butlast (segments s) @ [last (segments s) @ t]" by simp
  show ?case
  proof (cases "segments s")
    case Nil
    then show ?thesis using segments_notNil [of s] by simp
  next
    case (Cons x xs)
    then show ?thesis using ih by (cases xs) (simp_all)
  qed
qed

lemma normalizeString_snoc:
  "normalizeString base (segs @ [l]) =
     (if l = [] \<or> l = ''.'' then normalizeString base segs
      else if l = ''..'' then butlast (normalizeString base segs)
      else normalizeString base segs @ [l])"
  by (simp add: normalizeString_def)

lemma pathOf_snoc: "pathOf e (segs @ [l]) = cacheDevice e @ concat (map ((#) (CHR 0x5C)) segs) @ CHR 0x5C # l"
  by (simp add: pathOf_def)

lemma path_join_entry:
  assumes "entryName name"
  shows "path_join e name = dirPrefix e @ name"
proof -
  from assms have s: "segments name = [name]" and n: "name \<noteq> []" "name \<noteq> ''.''" "name \<noteq> ''..''"
    and l: "\<not> isPathSeparator (last name)"
    by (auto simp add: entryName_def segments_entry list_all_iff)
  have "normalizeString (cacheSegments e) (segments name) = cacheSegments e @ [name]"
    using n unfolding s by (simp add: normalizeString_def)
  then show ?thesis
    using l by (simp add: path_join_def pathOf_snoc dirPrefix_def)
qed

lemma path_join_suffix:
  assumes "list_all (\<lambda>c. \<not> isPathSeparator c) t" and "2 < length t"
  shows "\<exists>pre. path_join e (s @ t) = pre @ t"
proof -
  let ?l = "last (segments s) @ t"
  let ?n = "normalizeString (cacheSegments e) (butlast (segments s))"
  from assms(2) have t: "t \<noteq> []" by auto
  have "2 < length ?l"
    using assms(2) by simp
  then have l: "?l \<noteq> []" "?l \<noteq> ''.''" "?l \<noteq> ''..''"
    by (metis length_0_conv not_less0, metis length_Cons list.size(3) less_irrefl_nat One_nat_def not_less_eq less_Suc0 numeral_2_eq_2 Suc_lessD,
        metis length_Cons list.size(3) less_irrefl_nat numeral_2_eq_2)
  have "\<not> isPathSeparator (last t)"
    using assms(1) t by (simp add: list_all_iff)
  then have tr: "\<not> isPathSeparator (last (s @ t))"
    using t by simp
  have "normalizeString (cacheSegments e) (segments (s @ t)) = ?n @ [?l]"
    unfolding segments_append [OF assms(1)] normalizeString_snoc using l by simp
  then have "path_join e (s @ t) =
      (cacheDevice e @ concat (map ((#) (CHR 0x5C)) ?n) @ CHR 0x5C # last (segments s)) @ t"
    using tr by (simp add: path_join_def pathOf_snoc)
  then show ?thesis by blast
qed

lemma package_path_suffix: "\<exists>pre. getUpdatePackagePath e v = pre @ ''.exe''"
  unfolding getUpdatePackagePath_def
  using path_join_suffix [of "''.exe''" e "''CodeSetup-'' @ quality e @ ''-'' @ v"]
  by (simp add: isPathSeparator_def)

lemma flag_path_suffix: "\<exists>pre. flagFilePath e v = pre @ ''.flag''"
  unfolding flagFilePath_def
  using path_join_suffix [of "''.flag''" e "''CodeSetup-'' @ quality e @ ''-'' @ v"]
  by (simp add: isPathSeparator_def)

lemma package_not_tmp: "getUpdatePackagePath e v @ ''.tmp'' \<noteq> getUpdatePackagePath e v"
  by simp

lemma package_path_last: "last (getUpdatePackagePath e v) = CHR ''e''"
proof -
  obtain pre where "getUpdatePackagePath e v = pre @ ''.exe''"
    using package_path_suffix by blast
  then show ?thesis by simp
qed

lemma flag_path_last: "last (flagFilePath e v) = CHR ''g''"
proof -
  obtain pre where "flagFilePath e v = pre @ ''.flag''"
    using flag_path_suffix by blast
  then show ?thesis by simp
qed

lemma flag_not_package: "flagFilePath e x \<noteq> getUpdatePackagePath e v"
proof
  assume "flagFilePath e x = getUpdatePackagePath e v"
  then have "last (flagFilePath e x) = last (getUpdatePackagePath e v)" by simp
  then show False by (simp add: package_path_last flag_path_last)
qed

lemma flag_not_tmp: "flagFilePath e x \<noteq> getUpdatePackagePath e v @ ''.tmp''"
proof
  assume "flagFilePath e x = getUpdatePackagePath e v @ ''.tmp''"
  then have "last (flagFilePath e x) = last (getUpdatePackagePath e v @ ''.tmp'')" by simp
  then show False by (simp add: flag_path_last)
qed

lemma entryOf_Some:
  assumes "entryOf e p = Some name"
  shows "p = path_join e name"
proof -
  let ?pre = "dirPrefix e"
  from assms have t: "take (length ?pre) p = ?pre" and n: "name = drop (length ?pre) p"
    and v: "entryName name"
    unfolding entryOf_def Let_def by (simp_all split: if_splits)
  have "p = take (length ?pre) p @ drop (length ?pre) p"
    by (simp only: append_take_drop_id)
  also have "\<dots> = ?pre @ name"
    by (simp only: t n)
  finally show ?thesis
    by (simp add: path_join_entry [OF v])
qed

lemma entryOf_valid: "entryOf e p = Some name \<Longrightarrow> entryName name"
  unfolding entryOf_def Let_def by (auto split: if_splits)

lemma entryOf_join: "entryName name \<Longrightarrow> entryOf e (path_join e name) = Some name"
  by (simp add: entryOf_def path_join_entry)

lemma path_join_inject:
  "entryName a \<Longrightarrow> entryName b \<Longrightarrow> path_join e a = path_join e b \<longleftrightarrow> a = b"
  by (simp add: path_join_entry)

lemma readdir_valid: "name \<in> set (pfs_readdir e w) \<Longrightarrow> entryName name"
  unfolding pfs_readdir_def List.map_filter_def using entryOf_valid by fastforce

lemma filterThrowing_total:
  "(\<And>x. x \<in> set xs \<Longrightarrow> f x = Inr (g x)) \<Longrightarrow> filterThrowing f xs = Inr (filter g xs)"
  by (induction xs) simp_all

lemma unlink_files:
  "files (pfs_unlink io q w) = filter (\<lambda>pc. \<not> (fst pc = q \<and> \<not> unlinkFails io q)) (files w)"
proof (cases "unlinkFails io q")
  case True
  then show ?thesis by (simp add: pfs_unlink_def)
next
  case False
  have "(\<lambda>pc::string \<times> string. q \<noteq> fst pc) = (\<lambda>pc. fst pc \<noteq> q)" by auto
  with False show ?thesis by (simp add: pfs_unlink_def AList.delete_eq case_prod_unfold)
qed

lemma fold_unlink_files:
  "files (fold (\<lambda>one. pfs_unlink io (path_join e one)) doomed w) =
     filter (\<lambda>pc. \<not> (\<exists>one \<in> set doomed. fst pc = path_join e one \<and> \<not> unlinkFails io (path_join e one)))
       (files w)"
proof (induction doomed arbitrary: w)
  case Nil
  then show ?case by simp
next
  case (Cons one doomed)
  show ?case
    by (simp add: Cons.IH unlink_files)
qed

lemma readdir_filter:
  assumes valid: "\<And>n. n \<in> D \<Longrightarrow> entryName n"
  shows "List.map_filter (entryOf e)
       (map fst (filter (\<lambda>pc. \<not> (\<exists>one \<in> D. fst pc = path_join e one \<and> Q one)) fs))
     = filter (\<lambda>n. \<not> (n \<in> D \<and> Q n)) (List.map_filter (entryOf e) (map fst fs))"
proof (induction fs)
  case Nil
  then show ?case by (simp add: List.map_filter_simps)
next
  case (Cons a fs)
  show ?case
  proof (cases "entryOf e (fst a)")
    case None
    have "\<not> (\<exists>one \<in> D. fst a = path_join e one \<and> Q one)"
    proof
      assume "\<exists>one \<in> D. fst a = path_join e one \<and> Q one"
      then obtain one where "one \<in> D" and "fst a = path_join e one" by blast
      with valid [of one] have "entryOf e (fst a) = Some one" by (simp add: entryOf_join)
      with None show False by simp
    qed
    with None Cons show ?thesis by (simp add: List.map_filter_simps)
  next
    case (Some n)
    then have p: "fst a = path_join e n" by (rule entryOf_Some)
    from Some have vn: "entryName n" by (rule entryOf_valid)
    have iff: "(\<exists>one \<in> D. path_join e n = path_join e one \<and> Q one) \<longleftrightarrow> (n \<in> D \<and> Q n)"
      using valid vn by (auto simp add: path_join_entry)
    from Some Cons show ?thesis
      by (simp add: List.map_filter_simps p iff)
  qed
qed

theorem cleanup_survivors:
  assumes "readdirError io = None" and "v \<noteq> []"
    and "RegExp e (quality e @ ''-'' @ v @ [CHR 0x5C] @ ''.exe$'') = Inr test"
  shows "fst (cleanup e io (Some v) w) = None \<and>
     pfs_readdir e (snd (cleanup e io (Some v) w)) =
       filter (\<lambda>one. test one \<or> unlinkFails io (path_join e one)) (pfs_readdir e w)"
proof -
  let ?doomed = "filter (\<lambda>one. \<not> test one) (pfs_readdir e w)"
  have f: "filterThrowing (cleanupFilter e (Some v)) (pfs_readdir e w) = Inr ?doomed"
    using assms by (intro filterThrowing_total) (simp add: cleanupFilter_def)
  have c: "cleanup e io (Some v) w =
      (None, fold (\<lambda>one. pfs_unlink io (path_join e one)) ?doomed w)"
    using assms(1) f by (simp add: cleanup_def cleanupList_def)
  have valid: "\<And>n. n \<in> set ?doomed \<Longrightarrow> entryName n"
    using readdir_valid [of _ e w] by simp
  have "pfs_readdir e (fold (\<lambda>one. pfs_unlink io (path_join e one)) ?doomed w) =
      filter (\<lambda>n. \<not> (n \<in> set ?doomed \<and> \<not> unlinkFails io (path_join e n)))
        (pfs_readdir e w)"
    using readdir_filter [where D = "set ?doomed" and e = e and fs = "files w"
        and Q = "\<lambda>n. \<not> unlinkFails io (path_join e n)", OF valid]
    by (simp only: pfs_readdir_def fold_unlink_files)
  also have "\<dots> = filter (\<lambda>one. test one \<or> unlinkFails io (path_join e one)) (pfs_readdir e w)"
    by (rule filter_cong) auto
  finally show ?thesis
    unfolding c by simp
qed

lemma ex_pattern:
  "RegExp ex_env (quality ex_env @ ''-'' @ ''2.0.0'' @ [CHR 0x5C] @ ''.exe$'') = Inr (search ex_items)"
  by (simp add: RegExp_def ex_env_def ex_items_def)

lemma crowded_readdir:
  "pfs_readdir ex_env crowded_world =
     [''CodeSetup-stable-2.0.0.exe'', ''Backup-stable-2.0.0.exe'', ''CodeSetup-stable-1.0.0.exe'',
      ''CodeSetup-stable-1.5.0.exe'']"
  by code_simp

theorem cleanup_survivors_witness:
  "readdirError locked_io = None \<and> ''2.0.0'' \<noteq> [] \<and>
   RegExp ex_env (quality ex_env @ ''-'' @ ''2.0.0'' @ [CHR 0x5C] @ ''.exe$'') = Inr (search ex_items) \<and>
   fst (cleanup ex_env locked_io (Some ''2.0.0'') crowded_world) = None \<and>
   pfs_readdir ex_env (snd (cleanup ex_env locked_io (Some ''2.0.0'') crowded_world)) =
     [''CodeSetup-stable-2.0.0.exe'', ''Backup-stable-2.0.0.exe'', ''CodeSetup-stable-1.0.0.exe'']"
proof -
  have h1: "readdirError locked_io = None"
    by (simp add: locked_io_def ex_io_def)
  have h2: "''2.0.0'' \<noteq> []"
    by simp
  have kept: "filter (\<lambda>one. search ex_items one \<or> unlinkFails locked_io (path_join ex_env one))
      (pfs_readdir ex_env crowded_world) =
      [''CodeSetup-stable-2.0.0.exe'', ''Backup-stable-2.0.0.exe'', ''CodeSetup-stable-1.0.0.exe'']"
    by code_simp
  show ?thesis
    using cleanup_survivors [OF h1 h2 ex_pattern, of crowded_world] h1 ex_pattern
    by (simp add: kept)
qed

theorem cleanup_at_most_one_counterexample:
  "pfs_readdir ex_env (snd (cleanup ex_env locked_io (Some ''2.0.0'') crowded_world)) =
     [''CodeSetup-stable-2.0.0.exe'', ''Backup-stable-2.0.0.exe'', ''CodeSetup-stable-1.0.0.exe'']"
  by code_simp

lemma parse_plain:
  "list_all (\<lambda>c. \<not> special c) s \<Longrightarrow> parse (s @ rest) = map_option ((@) (map itemOf s)) (parse rest)"
proof (induction s)
  case Nil
  show ?case by (simp add: option.map_ident)
next
  case (Cons c s)
  then have c: "c \<noteq> CHR 0x5C" "c \<noteq> CHR ''$''" "c \<notin> set ''^*+?()[]{}|''"
    and ih: "parse (s @ rest) = map_option ((@) (map itemOf s)) (parse rest)"
    by (simp_all add: special_def)
  show ?case
    using c by (simp add: ih itemOf_def [of c] option.map_comp comp_def del: set_simps)
qed

lemma matchHere_plain: "matchHere (map itemOf s @ ps) (s @ t) = matchHere ps t"
  by (induction s) (simp_all add: itemOf_def)

lemma search_suffix: "matchHere ps s \<Longrightarrow> search ps (pre @ s)"
proof (induction pre)
  case Nil
  then show ?case by (cases s) simp_all
next
  case (Cons x pre)
  then show ?case by simp
qed

text \<open>When neither the quality nor the version has a character that is special in a
  regular expression, the pattern is accepted and matches the name of the package of that
  version: \<open>cleanup\<close> keeps it.\<close>

lemma package_name_matches:
  assumes "list_all (\<lambda>c. \<not> special c) (quality e)" and "list_all (\<lambda>c. \<not> special c) v"
  shows "\<exists>test. RegExp e (quality e @ ''-'' @ v @ [CHR 0x5C] @ ''.exe$'') = Inr test \<and>
     test (''CodeSetup-'' @ quality e @ ''-'' @ v @ ''.exe'')"
proof -
  let ?tail = "[Lit CHR ''.'', Lit CHR ''e'', Lit CHR ''x'', Lit CHR ''e'', EndAnchor]"
  let ?ps = "map itemOf (quality e @ ''-'' @ v) @ ?tail"
  have plain: "list_all (\<lambda>c. \<not> special c) (quality e @ ''-'' @ v)"
    using assms by (simp add: special_def)
  have "parse ([CHR 0x5C] @ ''.exe$'') = Some ?tail" by simp
  then have "parse ((quality e @ ''-'' @ v) @ [CHR 0x5C] @ ''.exe$'') = Some ?ps"
    by (simp only: parse_plain [OF plain] option.map)
  then have r: "RegExp e (quality e @ ''-'' @ v @ [CHR 0x5C] @ ''.exe$'') = Inr (search ?ps)"
    by (simp add: RegExp_def)
  have "matchHere ?ps ((quality e @ ''-'' @ v) @ ''.exe'')"
    by (simp only: matchHere_plain) simp
  then have "search ?ps (''CodeSetup-'' @ (quality e @ ''-'' @ v) @ ''.exe'')"
    by (rule search_suffix)
  with r show ?thesis by simp
qed

subsection \<open>The download step\<close>

text \<open>
  C4. When the package file of the update's version exists at the target cache path, the
  download step returns that path and leaves the world as it was: no request is issued
  and no file is written.
\<close>

theorem downloadStep_cached:
  "pfs_exists (getUpdatePackagePath e (version update)) w \<Longrightarrow>
     downloadStep e io update w = (Inr (getUpdatePackagePath e (version update)), w) \<and>
     requests (snd (downloadStep e io update w)) = requests w"
  by (simp add: downloadStep_def)

theorem downloadStep_cached_witness:
  "pfs_exists (getUpdatePackagePath ex_env (version ex_update)) cached_world \<and>
   downloadStep ex_env ex_io ex_update cached_world =
     (Inr (getUpdatePackagePath ex_env (version ex_update)), cached_world) \<and>
   requests (snd (downloadStep ex_env ex_io ex_update cached_world)) = []"
proof -
  have h: "pfs_exists (getUpdatePackagePath ex_env (version ex_update)) cached_world"
    by (simp add: pfs_exists_def cached_world_def initial_def ex_update_def)
  have r: "requests cached_world = []"
    by (simp add: cached_world_def initial_def)
  show ?thesis
    using downloadStep_cached [OF h, of ex_io] h r by simp
qed

lemma downloadStep_exists:
  "pfs_exists (getUpdatePackagePath e (version update)) w \<Longrightarrow>
     downloadStep e io update w = (Inr (getUpdatePackagePath e (version update)), w)"
  by (simp add: downloadStep_def)

text \<open>The same short cut in the chain of a check: the callback of the existence test
  issues no request and hands the cached path to the last continuation.\<close>

lemma onExists_cached:
  "pfs_exists (getUpdatePackagePath e (version update)) w \<Longrightarrow>
     fst (onExists e io update w) = Acquired (getUpdatePackagePath e (version update)) \<and>
     snd (onExists e io update w) =
       afterDownload e io update (getUpdatePackagePath e (version update)) w"
  by (simp add: onExists_def Let_def)

text \<open>A download step that succeeded leaves the package in the cache, so a second one,
  whatever the outside would answer, returns the same path and changes nothing.\<close>

lemma downloadStep_twice:
  assumes "fst (downloadStep e io update w) = Inr p"
  shows "downloadStep e io' update (snd (downloadStep e io update w)) =
     (Inr p, snd (downloadStep e io update w))"
proof -
  let ?p = "getUpdatePackagePath e (version update)"
  have "p = ?p \<and> pfs_exists ?p (snd (downloadStep e io update w))"
  proof (cases "pfs_exists ?p w")
    case True
    with assms show ?thesis by (simp add: downloadStep_def)
  next
    case False
    show ?thesis
    proof (cases "downloadOutcome io")
      case (Aborted err part)
      with False assms show ?thesis by (simp add: downloadStep_def download_def Let_def)
    next
      case (Complete c)
      let ?w2 = "pfs_writeFile (?p @ ''.tmp'') c (request (url update) w)"
      have tmp: "map_of (files ?w2) (?p @ ''.tmp'') = Some c"
        by (simp add: pfs_writeFile_def AList.update_conv')
      from False Complete assms
      have r: "fst (pfs_rename io (?p @ ''.tmp'') ?p ?w2) = None"
        and s: "snd (downloadStep e io update w) = snd (pfs_rename io (?p @ ''.tmp'') ?p ?w2)"
        and p: "p = ?p"
        by (auto simp add: downloadStep_def download_def Let_def
            split: option.splits prod.splits if_splits)
      from r tmp have "renameError io = None"
        by (cases "renameError io") (simp_all add: pfs_rename_def)
      with tmp have "files (snd (pfs_rename io (?p @ ''.tmp'') ?p ?w2)) =
          AList.update ?p c (AList.delete (?p @ ''.tmp'') (files ?w2))"
        by (simp add: pfs_rename_def)
      then have "pfs_exists ?p (snd (downloadStep e io update w))"
        unfolding s by (simp add: pfs_exists_def AList.update_conv')
      with p show ?thesis by simp
    qed
  qed
  then show ?thesis by (simp add: downloadStep_exists)
qed

subsection \<open>The readiness poll\<close>

lemma pollUntil_Some_D:
  assumes "pollUntil fn n = Some k"
  shows "n \<le> k \<and> fn k \<and> (\<forall>j. n \<le> j \<and> j < k \<longrightarrow> \<not> fn j)"
proof (rule pollUntil.raw_induct
    [where P = "\<lambda>fn n k. n \<le> k \<and> fn k \<and> (\<forall>j. n \<le> j \<and> j < k \<longrightarrow> \<not> fn j)", OF _ assms])
  fix rec :: "(nat \<Rightarrow> bool) \<Rightarrow> nat \<Rightarrow> nat option" and fn n k
  assume IH: "\<And>g m y. rec g m = Some y \<Longrightarrow> m \<le> y \<and> g y \<and> (\<forall>j. m \<le> j \<and> j < y \<longrightarrow> \<not> g j)"
    and eq: "(if fn n then Some n else rec fn (Suc n)) = Some k"
  show "n \<le> k \<and> fn k \<and> (\<forall>j. n \<le> j \<and> j < k \<longrightarrow> \<not> fn j)"
  proof (cases "fn n")
    case True
    with eq have "k = n" by simp
    with True show ?thesis by auto
  next
    case False
    with eq have "rec fn (Suc n) = Some k" by simp
    then have ih: "Suc n \<le> k \<and> fn k \<and> (\<forall>j. Suc n \<le> j \<and> j < k \<longrightarrow> \<not> fn j)"
      by (rule IH)
    have "\<not> fn j" if "n \<le> j" and "j < k" for j
    proof (cases "j = n")
      case True
      with False show ?thesis by simp
    next
      case neq: False
      with that have "Suc n \<le> j" by simp
      with ih that show ?thesis by blast
    qed
    with ih show ?thesis by simp
  qed
qed

lemma pollUntil_first:
  "fn k \<Longrightarrow> n \<le> k \<Longrightarrow> (\<forall>j. n \<le> j \<and> j < k \<longrightarrow> \<not> fn j) \<Longrightarrow> pollUntil fn n = Some k"
proof (induction "k - n" arbitrary: n)
  case 0
  then have "n = k" by simp
  with 0(2) show ?case by (simp add: pollUntil.simps [of fn k])
next
  case (Suc d)
  from Suc(2,4) have lt: "n < k" by simp
  with Suc(5) have nf: "\<not> fn n" by simp
  have d: "d = k - Suc n" using Suc(2) by simp
  have le: "Suc n \<le> k" using lt by simp
  have rest: "\<forall>j. Suc n \<le> j \<and> j < k \<longrightarrow> \<not> fn j" using Suc(5) by simp
  have "pollUntil fn (Suc n) = Some k"
    by (rule Suc(1) [OF d Suc(3) le rest])
  with nf show ?case by (simp add: pollUntil.simps [of fn n])
qed

lemma pollUntil_Some_iff:
  "pollUntil fn 0 = Some k \<longleftrightarrow> fn k \<and> (\<forall>j<k. \<not> fn j)"
proof
  assume "pollUntil fn 0 = Some k"
  from pollUntil_Some_D [OF this] show "fn k \<and> (\<forall>j<k. \<not> fn j)" by simp
next
  assume "fn k \<and> (\<forall>j<k. \<not> fn j)"
  then show "pollUntil fn 0 = Some k" by (intro pollUntil_first) simp_all
qed

lemma pollUntil_None_iff: "pollUntil fn 0 = None \<longleftrightarrow> (\<forall>j. \<not> fn j)"
proof
  assume none: "pollUntil fn 0 = None"
  show "\<forall>j. \<not> fn j"
  proof (rule ccontr)
    assume "\<not> (\<forall>j. \<not> fn j)"
    then obtain j where j: "fn j" by blast
    have "fn (LEAST j. fn j)" using j by (rule LeastI)
    moreover have "\<forall>i<(LEAST j. fn j). \<not> fn i" using not_less_Least by blast
    ultimately have "pollUntil fn 0 = Some (LEAST j. fn j)"
      by (simp only: pollUntil_Some_iff simp_thms)
    with none show False by simp
  qed
next
  assume never: "\<forall>j. \<not> fn j"
  show "pollUntil fn 0 = None"
  proof (cases "pollUntil fn 0")
    case None
    then show ?thesis .
  next
    case (Some k)
    from pollUntil_Some_D [OF this] never show ?thesis by simp
  qed
qed


subsection \<open>Runs\<close>

lemma run_Nil: "run e [] w = w"
  by (simp add: run_def)

lemma run_Cons: "run e (ev # evs) w = run e evs (fire e ev w)"
  by (simp add: run_def)

lemma run_append: "run e (evs @ evs') w = run e evs' (run e evs w)"
  by (simp add: run_def)

subsection \<open>The poll and the installer's exit\<close>

lemma onPollTimer_single:
  "polls w = [] \<Longrightarrow> onPollTimer 0 active (w\<lparr>polls := [update]\<rparr>) = poll active update w"
  by (simp add: onPollTimer_def poll_def setState_def)

lemma poll_pending: "polls w = [] \<Longrightarrow> \<not> active \<Longrightarrow> poll active update w = w\<lparr>polls := [update]\<rparr>"
  by (simp add: poll_def)

lemma timers_Suc: "timers fn (Suc k) = timers fn k @ [PollTimer 0 (fn (Suc k))]"
  by (simp add: timers_def)

lemma run_timers:
  assumes "polls w = []" and "\<forall>j<k. \<not> fn j"
  shows "run e (timers fn k) (poll (fn 0) update w) = poll (fn k) update w"
  using assms(2)
proof (induction k)
  case 0
  show ?case by (simp add: timers_def run_Nil)
next
  case (Suc k)
  then have "run e (timers fn k) (poll (fn 0) update w) = poll (fn k) update w" by simp
  moreover from Suc(2) have "\<not> fn k" by simp
  ultimately have "run e (timers fn k) (poll (fn 0) update w) = w\<lparr>polls := [update]\<rparr>"
    using assms(1) by (simp add: poll_pending)
  then show ?case
    using assms(1) by (simp add: timers_Suc run_append run_Cons run_Nil onPollTimer_single)
qed

lemma pollUntil_resolves:
  assumes "polls w = []" and "pollUntil fn 0 = Some k"
  shows "run e (timers fn k) (poll (fn 0) update w) = setState (Ready update) w"
proof -
  from assms(2) have "fn k" and "\<forall>j<k. \<not> fn j" by (simp_all add: pollUntil_Some_iff)
  with run_timers [OF assms(1), of k fn e update] show ?thesis by (simp add: poll_def)
qed

lemma pollUntil_pending:
  assumes "polls w = []" and "pollUntil fn 0 = None"
  shows "run e (timers fn k) (poll (fn 0) update w) = w\<lparr>polls := [update]\<rparr>"
proof -
  from assms(2) have "\<forall>j. \<not> fn j" by (simp add: pollUntil_None_iff)
  with run_timers [OF assms(1), of k fn e update] assms(1) show ?thesis by (simp add: poll_def)
qed

lemma polls_ChildExit: "polls (fire e ChildExit w) = polls w"
  by (simp add: onChildExit_def setState_def)

text \<open>
  C9, as the code has it. The poll has no upper bound on its attempts: it resolves at the
  first call of \<^verbatim>\<open>isActive\<close> that returns true, whatever its number (every number \<open>k\<close> is
  the number of the resolving call for some signal), and it never resolves when no call
  returns true. The exit of the installer does not stop it: the exit observer leaves the
  pending polls as they are.
\<close>

theorem poll_resolves_only_on_signal:
  "(pollUntil fn 0 = Some k \<longleftrightarrow> fn k \<and> (\<forall>j<k. \<not> fn j)) \<and>
   (pollUntil fn 0 = None \<longleftrightarrow> (\<forall>j. \<not> fn j)) \<and>
   (\<exists>g. pollUntil g 0 = Some k) \<and>
   polls (fire e ChildExit w) = polls w"
proof -
  have "pollUntil (\<lambda>j. j = k) 0 = Some k" by (simp add: pollUntil_Some_iff)
  then have "\<exists>g. pollUntil g 0 = Some k" by blast
  moreover have "polls (fire e ChildExit w) = polls w" by (rule polls_ChildExit)
  moreover note pollUntil_Some_iff [of fn k] pollUntil_None_iff [of fn]
  ultimately show ?thesis by (intro conjI)
qed

text \<open>A signal active from the third call on resolves the poll at the call number 2; a
  signal that is never active never does; the exit of the installer leaves the poll of
  \<open>polling_world\<close> pending.\<close>

theorem poll_resolves_only_on_signal_witness:
  "pollUntil active_from_2 0 = Some 2 \<and> pollUntil never_active 0 = None \<and>
   polls (fire ex_env ChildExit polling_world) = [ex_update]"
proof -
  have a: "active_from_2 2 \<and> (\<forall>j<2. \<not> active_from_2 j)" by (simp add: active_from_2_def)
  have n: "\<forall>j. \<not> never_active j" by (simp add: never_active_def)
  have p: "polls polling_world = [ex_update]" by code_simp
  show ?thesis
    using poll_resolves_only_on_signal [of active_from_2 2 ex_env polling_world]
      poll_resolves_only_on_signal [of never_active 0 ex_env polling_world] a n p
    by simp
qed

text \<open>
  C9, as the claim has it, fails: the installer of \<open>polling_world\<close> exits (no child is
  left), and the poll is still pending after two more timers that find the signal
  inactive; a timer that finds it active after the exit still resolves the poll.
\<close>

theorem exit_stops_poll_counterexample:
  "children polling_world = 1 \<and>
   children (fire ex_env ChildExit polling_world) = 0 \<and>
   polls (run ex_env [ChildExit, PollTimer 0 False, PollTimer 0 False] polling_world) = [ex_update] \<and>
   state (run ex_env [ChildExit, PollTimer 0 False, PollTimer 0 True] polling_world) = Ready ex_update"
  by code_simp

subsection \<open>The callbacks of a check's chain\<close>

lemma doApplyUpdate_cases [case_names skipped started]:
  assumes "(stateType (state w) \<noteq> T_Downloaded \<and> stateType (state w) \<noteq> T_Downloading) \<or>
        availableUpdate w = None \<Longrightarrow> doApplyUpdate e aio w = w \<Longrightarrow> P"
    and "\<And>update a. state w = Downloaded update \<or> state w = Downloading update \<Longrightarrow>
        availableUpdate w = Some a \<Longrightarrow>
        doApplyUpdate e aio w =
          w\<lparr>state := Updating update, onStateChange := onStateChange w @ [Updating update],
            availableUpdate := Some (a\<lparr>updateFilePath := Some (flagFilePath e (version update))\<rparr>),
            tasks := tasks w @ [ApplyTask update aio]\<rparr> \<Longrightarrow> P"
  shows P
proof (cases "availableUpdate w")
  case None
  then have "doApplyUpdate e aio w = w" by (simp add: doApplyUpdate_def)
  with None assms(1) show ?thesis by simp
next
  case (Some a)
  show ?thesis
  proof (cases "state w")
    case (Downloading update)
    with Some have "doApplyUpdate e aio w =
          w\<lparr>state := Updating update, onStateChange := onStateChange w @ [Updating update],
            availableUpdate := Some (a\<lparr>updateFilePath := Some (flagFilePath e (version update))\<rparr>),
            tasks := tasks w @ [ApplyTask update aio]\<rparr>"
      by (simp add: doApplyUpdate_def applyAvailable_def setState_def)
    with Downloading Some assms(2) show ?thesis by blast
  next
    case (Downloaded update)
    with Some have "doApplyUpdate e aio w =
          w\<lparr>state := Updating update, onStateChange := onStateChange w @ [Updating update],
            availableUpdate := Some (a\<lparr>updateFilePath := Some (flagFilePath e (version update))\<rparr>),
            tasks := tasks w @ [ApplyTask update aio]\<rparr>"
      by (simp add: doApplyUpdate_def applyAvailable_def setState_def)
    with Downloaded Some assms(2) show ?thesis by blast
  qed (use assms(1) in \<open>simp_all add: doApplyUpdate_def\<close>)
qed

lemma onFlagWritten_cases [case_names failed threw spawned]:
  assumes "\<And>err. writeFileError aio = Some err \<Longrightarrow> onFlagWritten e aio update w = (Some err, w) \<Longrightarrow> P"
    and "writeFileError aio = None \<Longrightarrow> availableUpdate w = None \<Longrightarrow>
        onFlagWritten e aio update w =
          (Some (Error ''TypeError''),
           w\<lparr>files := AList.update (flagFilePath e (version update)) ''flag'' (files w)\<rparr>) \<Longrightarrow> P"
    and "\<And>a. writeFileError aio = None \<Longrightarrow> availableUpdate w = Some a \<Longrightarrow>
        onFlagWritten e aio update w =
          (None,
           poll (isActive0 aio) update
             (w\<lparr>files := AList.update (flagFilePath e (version update)) ''flag'' (files w),
                spawned := spawned w @ [(packagePath a, installerArgs (updateFilePathText a))],
                children := Suc (children w)\<rparr>)) \<Longrightarrow> P"
  shows P
proof (cases "writeFileError aio")
  case (Some err)
  then have "onFlagWritten e aio update w = (Some err, w)" by (simp add: onFlagWritten_def)
  with Some assms(1) show ?thesis by blast
next
  case None
  show ?thesis
  proof (cases "availableUpdate w")
    case n: None
    with None have "onFlagWritten e aio update w =
          (Some (Error ''TypeError''),
           w\<lparr>files := AList.update (flagFilePath e (version update)) ''flag'' (files w)\<rparr>)"
      by (simp add: onFlagWritten_def pfs_writeFile_def)
    with None n assms(2) show ?thesis by blast
  next
    case (Some a)
    with None have "onFlagWritten e aio update w =
          (None,
           poll (isActive0 aio) update
             (w\<lparr>files := AList.update (flagFilePath e (version update)) ''flag'' (files w),
                spawned := spawned w @ [(packagePath a, installerArgs (updateFilePathText a))],
                children := Suc (children w)\<rparr>))"
      by (simp add: onFlagWritten_def pfs_writeFile_def spawn_def onceExit_def)
    with None Some assms(3) show ?thesis by blast
  qed
qed

lemma files_frame_refl: "\<exists>fs. (w::world) = w\<lparr>files := fs\<rparr>"
proof
  show "w = w\<lparr>files := files w\<rparr>" by simp
qed

lemma frame_refl: "(w::world) = w\<lparr>files := files w, requests := requests w\<rparr>"
  by simp

text \<open>How a callback of a check's chain ends, and what it changes.\<close>

lemma resume_cases [case_names rejected suspended downloading notAvailable offered acquired]:
  assumes "\<And>err fs. resume e io c st w = (Rejected err, w\<lparr>files := fs\<rparr>) \<Longrightarrow> P"
    and "\<And>st' fs rs. st \<noteq> AwaitFeed \<Longrightarrow>
        resume e io c st w = (Suspended st', w\<lparr>files := fs, requests := rs\<rparr>) \<Longrightarrow> P"
    and "\<And>update. st = AwaitFeed \<Longrightarrow> feed io = Inr (Some update) \<Longrightarrow>
        resume e io c st w = (Suspended (AwaitReaddir update), setState (Downloading update) w) \<Longrightarrow> P"
    and "st = AwaitFeed \<Longrightarrow> resume e io c st w = (NotAvailable, notAvailable e c w) \<Longrightarrow> P"
    and "\<And>update. st = AwaitFeed \<Longrightarrow> feed io = Inr (Some update) \<Longrightarrow>
        resume e io c st w = (Offered, setState (AvailableForDownload update) w) \<Longrightarrow> P"
    and "\<And>update fs. st = AwaitExists update \<or> st = AwaitRename update \<Longrightarrow>
        resume e io c st w =
          (Acquired (getUpdatePackagePath e (version update)),
           afterDownload e io update (getUpdatePackagePath e (version update)) (w\<lparr>files := fs\<rparr>)) \<Longrightarrow> P"
  shows P
proof (cases st)
  case AwaitFeed
  show ?thesis
  proof (cases "feed io")
    case (Inl err)
    with AwaitFeed have "resume e io c st w = (Rejected err, w\<lparr>files := files w\<rparr>)" by simp
    then show ?thesis by (rule assms(1))
  next
    case (Inr upd)
    show ?thesis
    proof (cases upd)
      case None
      with Inr AwaitFeed assms(4) show ?thesis by (simp add: onUpdate_def)
    next
      case (Some update)
      show ?thesis
      proof (cases "\<not> truthy (url update) \<or> version update = [] \<or> productVersion update = []")
        case True
        with Some Inr AwaitFeed have "resume e io c st w = (NotAvailable, notAvailable e c w)"
          by (simp add: onUpdate_def)
        with AwaitFeed assms(4) show ?thesis by blast
      next
        case False
        show ?thesis
        proof (cases "getUpdateType e = Archive")
          case True
          with False Some Inr AwaitFeed
          have "resume e io c st w = (Offered, setState (AvailableForDownload update) w)"
            by (simp add: onUpdate_def)
          with AwaitFeed Some Inr assms(5) show ?thesis by blast
        next
          case notArchive: False
          with False Some Inr AwaitFeed
          have "resume e io c st w =
              (Suspended (AwaitReaddir update), setState (Downloading update) w)"
            by (simp add: onUpdate_def)
          with AwaitFeed Some Inr assms(3) show ?thesis by blast
        qed
      qed
    qed
  qed
next
  case (AwaitReaddir update)
  show ?thesis
  proof (cases "cleanupList e io (Some (version update)) w")
    case (Inl err)
    with AwaitReaddir have "resume e io c st w = (Rejected err, w\<lparr>files := files w\<rparr>)"
      by (simp add: onReaddir_def)
    then show ?thesis by (rule assms(1))
  next
    case (Inr doomed)
    with AwaitReaddir have "resume e io c st w =
        (Suspended (awaitUnlinks update doomed), w\<lparr>files := files w, requests := requests w\<rparr>)"
      by (simp add: onReaddir_def)
    with AwaitReaddir assms(2) show ?thesis by blast
  qed
next
  case (AwaitUnlinks update pending)
  show ?thesis
  proof (cases pending)
    case Nil
    with AwaitUnlinks have "resume e io c st w =
        (Suspended (AwaitExists update), w\<lparr>files := files w, requests := requests w\<rparr>)"
      by simp
    with AwaitUnlinks assms(2) show ?thesis by blast
  next
    case (Cons one rest)
    with AwaitUnlinks have "resume e io c st w =
        (Suspended (awaitUnlinks update rest),
         w\<lparr>files := files (pfs_unlink io (path_join e one) w), requests := requests w\<rparr>)"
      by (simp add: pfs_unlink_def)
    with AwaitUnlinks assms(2) show ?thesis by blast
  qed
next
  case (AwaitExists update)
  show ?thesis
  proof (cases "pfs_exists (getUpdatePackagePath e (version update)) w")
    case True
    with AwaitExists have "resume e io c st w =
          (Acquired (getUpdatePackagePath e (version update)),
           afterDownload e io update (getUpdatePackagePath e (version update)) (w\<lparr>files := files w\<rparr>))"
      by (simp add: onExists_def Let_def)
    with AwaitExists assms(6) show ?thesis by blast
  next
    case False
    with AwaitExists have "resume e io c st w =
        (Suspended (AwaitDownload update), w\<lparr>files := files w, requests := requests w @ [url update]\<rparr>)"
      by (simp add: onExists_def Let_def request_def)
    with AwaitExists assms(2) show ?thesis by blast
  qed
next
  case (AwaitDownload update)
  let ?tmp = "getUpdatePackagePath e (version update) @ ''.tmp''"
  show ?thesis
  proof (cases "downloadOutcome io")
    case (Complete content)
    with AwaitDownload have "resume e io c st w =
        (Suspended (if truthy (hash update) then AwaitChecksum update else AwaitRename update),
         w\<lparr>files := AList.update ?tmp content (files w), requests := requests w\<rparr>)"
      by (simp add: onDownload_def download_def pfs_writeFile_def)
    with AwaitDownload assms(2) show ?thesis by blast
  next
    case (Aborted err part)
    with AwaitDownload have "resume e io c st w =
        (Rejected err, w\<lparr>files := (case part of None \<Rightarrow> files w
                                               | Some content \<Rightarrow> AList.update ?tmp content (files w))\<rparr>)"
      by (cases part) (simp_all add: onDownload_def download_def pfs_writeFile_def)
    then show ?thesis by (rule assms(1))
  qed
next
  case (AwaitChecksum update)
  let ?tmp = "getUpdatePackagePath e (version update) @ ''.tmp''"
  show ?thesis
  proof (cases "checksum e ?tmp (hash update) w")
    case None
    with AwaitChecksum have "resume e io c st w =
        (Suspended (AwaitRename update), w\<lparr>files := files w, requests := requests w\<rparr>)"
      by (simp add: onChecksum_def)
    with AwaitChecksum assms(2) show ?thesis by blast
  next
    case (Some err)
    with AwaitChecksum have "resume e io c st w = (Rejected err, w\<lparr>files := files w\<rparr>)"
      by (simp add: onChecksum_def)
    then show ?thesis by (rule assms(1))
  qed
next
  case (AwaitRename update)
  let ?p = "getUpdatePackagePath e (version update)"
  show ?thesis
  proof (cases "fst (pfs_rename io (?p @ ''.tmp'') ?p w)")
    case None
    then obtain fs where "pfs_rename io (?p @ ''.tmp'') ?p w = (None, w\<lparr>files := fs\<rparr>)"
      by (auto simp add: pfs_rename_def split: option.splits)
    with AwaitRename have "resume e io c st w =
          (Acquired ?p, afterDownload e io update ?p (w\<lparr>files := fs\<rparr>))"
      by (simp add: onRename_def Let_def)
    with AwaitRename assms(6) show ?thesis by blast
  next
    case (Some err)
    then have "pfs_rename io (?p @ ''.tmp'') ?p w = (Some err, w)"
      by (auto simp add: pfs_rename_def split: option.splits)
    with AwaitRename have "resume e io c st w = (Rejected err, w\<lparr>files := files w\<rparr>)"
      by (simp add: onRename_def Let_def)
    then show ?thesis by (rule assms(1))
  qed
qed

lemma afterDownload_cases [case_names ready downloaded skipped applying]:
  assumes "\<not> (fastUpdatesEnabled io \<and> supportsFastUpdate update) \<Longrightarrow>
        afterDownload e io update p w =
          w\<lparr>availableUpdate := Some \<lparr>packagePath = p, updateFilePath = None\<rparr>,
            state := Ready update, onStateChange := onStateChange w @ [Ready update]\<rparr> \<Longrightarrow> P"
    and "fastUpdatesEnabled io \<Longrightarrow> supportsFastUpdate update \<Longrightarrow> target e \<noteq> ''user'' \<Longrightarrow>
        afterDownload e io update p w =
          w\<lparr>availableUpdate := Some \<lparr>packagePath = p, updateFilePath = None\<rparr>,
            state := Downloaded update, onStateChange := onStateChange w @ [Downloaded update]\<rparr> \<Longrightarrow> P"
    and "fastUpdatesEnabled io \<Longrightarrow> supportsFastUpdate update \<Longrightarrow> target e = ''user'' \<Longrightarrow>
        stateType (state w) \<noteq> T_Downloaded \<Longrightarrow> stateType (state w) \<noteq> T_Downloading \<Longrightarrow>
        afterDownload e io update p w =
          w\<lparr>availableUpdate := Some \<lparr>packagePath = p, updateFilePath = None\<rparr>\<rparr> \<Longrightarrow> P"
    and "\<And>x. fastUpdatesEnabled io \<Longrightarrow> supportsFastUpdate update \<Longrightarrow> target e = ''user'' \<Longrightarrow>
        state w = Downloaded x \<or> state w = Downloading x \<Longrightarrow>
        afterDownload e io update p w =
          w\<lparr>availableUpdate :=
               Some \<lparr>packagePath = p, updateFilePath = Some (flagFilePath e (version x))\<rparr>,
            state := Updating x, onStateChange := onStateChange w @ [Updating x],
            tasks := tasks w @ [ApplyTask x (applyIO io)]\<rparr> \<Longrightarrow> P"
  shows P
proof (cases "fastUpdatesEnabled io \<and> supportsFastUpdate update")
  case False
  then have "afterDownload e io update p w =
          w\<lparr>availableUpdate := Some \<lparr>packagePath = p, updateFilePath = None\<rparr>,
            state := Ready update, onStateChange := onStateChange w @ [Ready update]\<rparr>"
    by (auto simp add: afterDownload_def setState_def Let_def)
  with False assms(1) show ?thesis by blast
next
  case True
  let ?w1 = "w\<lparr>availableUpdate := Some \<lparr>packagePath = p, updateFilePath = None\<rparr>\<rparr>"
  show ?thesis
  proof (cases "target e = ''user''")
    case False
    with True have "afterDownload e io update p w =
          w\<lparr>availableUpdate := Some \<lparr>packagePath = p, updateFilePath = None\<rparr>,
            state := Downloaded update, onStateChange := onStateChange w @ [Downloaded update]\<rparr>"
      by (simp add: afterDownload_def setState_def Let_def)
    with True False assms(2) show ?thesis by blast
  next
    case user: True
    with True have a: "afterDownload e io update p w = doApplyUpdate e (applyIO io) ?w1"
      by (simp add: afterDownload_def Let_def)
    show ?thesis
    proof (cases rule: doApplyUpdate_cases [of ?w1 e "applyIO io"])
      case skipped
      then have "stateType (state w) \<noteq> T_Downloaded" "stateType (state w) \<noteq> T_Downloading"
        by simp_all
      with True user a skipped(2) assms(3) show ?thesis by simp
    next
      case (started x a')
      then have "state w = Downloaded x \<or> state w = Downloading x" by simp
      moreover from started(2) have "a' = \<lparr>packagePath = p, updateFilePath = None\<rparr>" by simp
      ultimately show ?thesis
        using True user a started(3) assms(4) [of x] by simp
    qed
  qed
qed

lemma telemetry_afterDownload: "telemetry (afterDownload e io update p w) = telemetry w"
  by (cases rule: afterDownload_cases [of io update e p w]) simp_all

lemma logged_afterDownload: "logged (afterDownload e io update p w) = logged w"
  by (cases rule: afterDownload_cases [of io update e p w]) simp_all

lemma files_afterDownload: "files (afterDownload e io update p w) = files w"
  by (cases rule: afterDownload_cases [of io update e p w]) simp_all

lemma spawned_afterDownload: "spawned (afterDownload e io update p w) = spawned w"
  by (cases rule: afterDownload_cases [of io update e p w]) simp_all

lemma telemetry_doApplyUpdate: "telemetry (doApplyUpdate e aio w) = telemetry w"
  by (cases rule: doApplyUpdate_cases [of w e aio]) simp_all

lemma telemetry_onFlagWritten: "telemetry (snd (onFlagWritten e aio update w)) = telemetry w"
  by (cases rule: onFlagWritten_cases [of aio e update w]) (simp_all add: poll_def setState_def)

lemma telemetry_doQuitAndInstall: "telemetry (snd (doQuitAndInstall e w)) = telemetry w"
  by (simp add: doQuitAndInstall_def spawn_def fs_unlinkSync_def split: State.split option.split)

subsection \<open>Telemetry\<close>

text \<open>What a callback of a check's chain adds to the telemetry.\<close>

lemma telemetry_resumeCheck:
  "telemetry (resumeCheck e k st c io w) = telemetry w @
     (case fst (resume e io c st w) of
        NotAvailable \<Rightarrow> [(''update:notAvailable'', Explicit c)]
      | Rejected err \<Rightarrow> [(''update:notAvailable'', Explicit c)]
      | _ \<Rightarrow> [])"
proof (cases rule: resume_cases [of e io c st w])
  case (rejected err fs)
  then show ?thesis
    by (simp add: resumeCheck_def onError_def setState_def publicLog_def logError_def dropTask_def)
next
  case (suspended st' fs rs)
  then show ?thesis by (simp add: resumeCheck_def)
next
  case (downloading update)
  then show ?thesis by (simp add: resumeCheck_def setState_def)
next
  case notAvailable
  then show ?thesis
    by (simp add: resumeCheck_def notAvailable_def setState_def publicLog_def dropTask_def)
next
  case (offered update)
  then show ?thesis by (simp add: resumeCheck_def setState_def dropTask_def)
next
  case (acquired update fs)
  then show ?thesis by (simp add: resumeCheck_def dropTask_def telemetry_afterDownload)
qed

text \<open>
  C8, as the code has it. The only event that adds to the telemetry is a callback of a
  check's chain that ends the chain with no update (the feed offers none) or with an
  error (whatever call was rejected): it adds exactly one event, \<^verbatim>\<open>update:notAvailable\<close>
  with the flag "explicit" of the check. A callback that suspends the chain again, and
  the one that ends it with an update (the package is at its path, or the update is made
  available for download) add nothing, and neither does any other event. So a cycle that
  finds no update or fails emits exactly one event, at its end, and a cycle that finds
  an update and raises no error emits none.
\<close>

theorem check_telemetry:
  "telemetry (fire e ev w) = telemetry w @
     (case ev of
        Resume k \<Rightarrow>
          (if k < length (tasks w) then
             (case tasks w ! k of
                CheckTask st c io \<Rightarrow>
                  (case fst (resume e io c st w) of
                     NotAvailable \<Rightarrow> [(''update:notAvailable'', Explicit c)]
                   | Rejected err \<Rightarrow> [(''update:notAvailable'', Explicit c)]
                   | _ \<Rightarrow> [])
              | ApplyTask update aio \<Rightarrow> [])
           else [])
      | _ \<Rightarrow> [])"
proof (cases ev)
  case (CheckForUpdates c io)
  then show ?thesis
    by (simp add: doCheckForUpdates_def setState_def request_def Let_def split: option.split)
next
  case DownloadUpdate
  then show ?thesis by (simp add: doDownloadUpdate_def setState_def split: State.split)
next
  case (ApplyUpdate aio)
  then show ?thesis by (simp add: telemetry_doApplyUpdate)
next
  case QuitAndInstall
  then show ?thesis by (simp add: telemetry_doQuitAndInstall)
next
  case (PollTimer k active)
  then show ?thesis by (simp add: onPollTimer_def poll_def setState_def)
next
  case ChildExit
  then show ?thesis by (simp add: onChildExit_def setState_def)
next
  case (Resume k)
  show ?thesis
  proof (cases "k < length (tasks w)")
    case False
    with Resume show ?thesis by (simp add: onResume_def)
  next
    case True
    show ?thesis
    proof (cases "tasks w ! k")
      case (CheckTask st c io)
      with True Resume show ?thesis by (simp add: onResume_def telemetry_resumeCheck)
    next
      case (ApplyTask update aio)
      with True Resume show ?thesis
        by (simp add: onResume_def dropTask_def telemetry_onFlagWritten)
    qed
  qed
qed

text \<open>A background check whose feed offers no update reports \<^verbatim>\<open>update:notAvailable\<close> with
  \<open>explicit = false\<close> when the answer of the feed arrives.\<close>

theorem check_telemetry_witness:
  "telemetry (fire ex_env (CheckForUpdates False empty_io) ex_world) =
     [(''update:win32SetupTarget'', Target ''user'')] \<and>
   telemetry (fire ex_env (Resume 0) (fire ex_env (CheckForUpdates False empty_io) ex_world)) =
     [(''update:win32SetupTarget'', Target ''user''), (''update:notAvailable'', Explicit False)]"
proof -
  let ?w = "fire ex_env (CheckForUpdates False empty_io) ex_world"
  have t: "tasks ?w = [CheckTask AwaitFeed False empty_io]"
    by (simp add: ex_world_def initial_def doCheckForUpdates_def Let_def setState_def request_def
        ex_env_def)
  have f: "fst (resume ex_env empty_io False AwaitFeed ?w) = NotAvailable"
    by (simp add: empty_io_def onUpdate_def)
  have l: "telemetry ?w = [(''update:win32SetupTarget'', Target ''user'')]" by code_simp
  show ?thesis
    using check_telemetry [of ex_env "Resume 0" ?w] t f l by simp
qed

text \<open>
  C8, as the claim has it, fails: an explicit check that downloads an update and ends in
  \<open>Ready\<close> leaves the telemetry as the constructor left it.
\<close>

theorem check_telemetry_counterexample:
  "state (run ex_env (CheckForUpdates True plain_io # resumes 6) ex_world) = Ready ex_update \<and>
   tasks (run ex_env (CheckForUpdates True plain_io # resumes 6) ex_world) = [] \<and>
   telemetry (run ex_env (CheckForUpdates True plain_io # resumes 6) ex_world) =
     [(''update:win32SetupTarget'', Target ''user'')]"
  by code_simp

subsection \<open>Errors of a check cycle\<close>

lemma logged_resume: "logged (snd (resume e io c st w)) = logged w"
  by (cases rule: resume_cases [of e io c st w])
    (simp_all add: setState_def notAvailable_def publicLog_def logged_afterDownload)

text \<open>
  C5. Whatever error a callback of a check's chain is rejected with (the feed request or
  its parsing, the listing of the cache, the transfer, the checksum, the rename), the
  last handler takes it in the same step: the service is in \<open>Idle\<close> carrying
  \<^verbatim>\<open>err.message || err\<close>, which is the error's message when it has one, the error is logged
  and reported to telemetry, and the chain is over; the step returns a world and no
  error. The lemmas after the theorem show that a feed error, a failed listing, a
  transport error, a checksum mismatch and a failed rename do reject the chain.
\<close>

theorem check_error_ends_idle:
  assumes "k < length (tasks w)" and "tasks w ! k = CheckTask st context io"
    and "fst (resume e io context st w) = Rejected err"
  shows "state (fire e (Resume k) w) = Idle (getUpdateType e) (Some (messageOrError err)) \<and>
     (message err \<noteq> [] \<longrightarrow>
        state (fire e (Resume k) w) = Idle (getUpdateType e) (Some (Message (message err)))) \<and>
     logged (fire e (Resume k) w) = logged w @ [err] \<and>
     telemetry (fire e (Resume k) w) = telemetry w @ [(''update:notAvailable'', Explicit context)] \<and>
     tasks (fire e (Resume k) w) = take k (tasks w) @ drop (Suc k) (tasks w)"
proof (cases rule: resume_cases [of e io "context" st w])
  case (rejected err' fs)
  with assms(3) have "err' = err" by simp
  with rejected assms(1,2) show ?thesis
    by (simp add: onResume_def resumeCheck_def onError_def setState_def publicLog_def
        logError_def dropTask_def messageOrError_def)
qed (use assms(3) in simp_all)

lemma feed_error_raised:
  "feed io = Inl err \<Longrightarrow> fst (resume e io context AwaitFeed w) = Rejected err"
  by simp

lemma readdir_error_raised:
  "readdirError io = Some err \<Longrightarrow> fst (resume e io context (AwaitReaddir update) w) = Rejected err"
  by (simp add: onReaddir_def cleanupList_def)

lemma transport_error_raised:
  "downloadOutcome io = Aborted err part \<Longrightarrow>
     fst (resume e io context (AwaitDownload update) w) = Rejected err"
  by (simp add: onDownload_def download_def)

text \<open>With a hash in the descriptor the checksum follows the transfer, and a content at
  the temporary path whose checksum differs from the hash rejects the chain.\<close>

lemma checksum_follows_download:
  "downloadOutcome io = Complete content \<Longrightarrow> truthy (hash update) \<Longrightarrow>
     fst (resume e io context (AwaitDownload update) w) = Suspended (AwaitChecksum update) \<and>
     map_of (files (snd (resume e io context (AwaitDownload update) w)))
       (getUpdatePackagePath e (version update) @ ''.tmp'') = Some content"
  by (simp add: onDownload_def download_def pfs_writeFile_def AList.update_conv')

lemma checksum_mismatch_raised:
  "map_of (files w) (getUpdatePackagePath e (version update) @ ''.tmp'') = Some content \<Longrightarrow>
     Some (sha1 e content) \<noteq> hash update \<Longrightarrow>
     fst (resume e io context (AwaitChecksum update) w) = Rejected (Error ''Hash mismatch'')"
  by (simp add: onChecksum_def checksum_def)

lemma rename_error_raised:
  "renameError io = Some err \<Longrightarrow> fst (resume e io context (AwaitRename update) w) = Rejected err"
  by (simp add: onRename_def pfs_rename_def Let_def)

text \<open>The feed offers version 2.0.0 with the hash \<open>abc123\<close>, the transfer succeeds and the
  checksum of its content is \<open>def456\<close>: the callback of the checksum leaves the service in
  \<open>Idle\<close> with the message of the mismatch.\<close>

lemma mismatch_tasks: "tasks mismatch_world = [CheckTask (AwaitChecksum ex_update) False mismatch_io]"
  by (simp add: mismatch_world_def run_def resumes_def ex_world_def initial_def doCheckForUpdates_def
      Let_def setState_def request_def ex_env_def onResume_def resumeCheck_def mismatch_io_def
      ex_io_def onUpdate_def ex_update_def onReaddir_def cleanupList_def pfs_readdir_def
      List.map_filter_simps awaitUnlinks_def onExists_def pfs_exists_def onDownload_def
      download_def pfs_writeFile_def numeral_nat)

theorem check_error_ends_idle_witness:
  "0 < length (tasks mismatch_world) \<and>
   tasks mismatch_world ! 0 = CheckTask (AwaitChecksum ex_update) False mismatch_io \<and>
   fst (resume ex_env mismatch_io False (AwaitChecksum ex_update) mismatch_world) =
     Rejected (Error ''Hash mismatch'') \<and>
   state (fire ex_env (Resume 0) mismatch_world) = Idle Setup (Some (Message ''Hash mismatch'')) \<and>
   logged (fire ex_env (Resume 0) mismatch_world) = [Error ''Hash mismatch''] \<and>
   tasks (fire ex_env (Resume 0) mismatch_world) = []"
proof -
  have h1: "0 < length (tasks mismatch_world)" by (simp add: mismatch_tasks)
  have h2: "tasks mismatch_world ! 0 = CheckTask (AwaitChecksum ex_update) False mismatch_io"
    by (simp add: mismatch_tasks)
  have h3: "fst (resume ex_env mismatch_io False (AwaitChecksum ex_update) mismatch_world) =
      Rejected (Error ''Hash mismatch'')"
    unfolding mismatch_world_def by code_simp
  have t: "getUpdateType ex_env = Setup" "logged mismatch_world = []"
    unfolding mismatch_world_def by code_simp+
  show ?thesis
    using check_error_ends_idle [OF h1 h2 h3] h1 h2 h3 t
    by (simp add: messageOrError_def mismatch_tasks)
qed

subsection \<open>Entering Ready\<close>

lemma notified_self: "notified w w = []"
  by (simp add: notified_def)

lemma notified_append: "onStateChange w' = onStateChange w @ ns \<Longrightarrow> notified w w' = ns"
  by (simp add: notified_def)

lemma onStateChange_doQuitAndInstall:
  "onStateChange (snd (doQuitAndInstall e w)) = onStateChange w"
  by (simp add: doQuitAndInstall_def spawn_def fs_unlinkSync_def split: State.split option.split)

text \<open>The state changes of a callback of a check's chain.\<close>

lemma ready_in_check:
  assumes "Ready update \<in> set (notified w (resumeCheck e k st c io w))"
  shows "(st = AwaitExists update \<or> st = AwaitRename update) \<and>
     \<not> (fastUpdatesEnabled io \<and> supportsFastUpdate update) \<and>
     spawned (resumeCheck e k st c io w) = spawned w"
proof (cases rule: resume_cases [of e io c st w])
  case (rejected err fs)
  with assms show ?thesis
    by (simp add: resumeCheck_def onError_def setState_def publicLog_def logError_def dropTask_def
        notified_def)
next
  case (suspended st' fs rs)
  with assms show ?thesis by (simp add: resumeCheck_def notified_def)
next
  case (downloading update')
  with assms show ?thesis by (simp add: resumeCheck_def setState_def notified_def)
next
  case notAvailable
  with assms show ?thesis
    by (simp add: resumeCheck_def notAvailable_def setState_def publicLog_def dropTask_def
        notified_def)
next
  case (offered update')
  with assms show ?thesis by (simp add: resumeCheck_def setState_def dropTask_def notified_def)
next
  case (acquired update' fs)
  let ?p = "getUpdatePackagePath e (version update')"
  have r: "resumeCheck e k st c io w = dropTask k (afterDownload e io update' ?p (w\<lparr>files := fs\<rparr>))"
    using acquired(2) by (simp add: resumeCheck_def)
  show ?thesis
  proof (cases rule: afterDownload_cases [of io update' e ?p "w\<lparr>files := fs\<rparr>"])
    case ready
    with assms acquired(1) show ?thesis
      unfolding r by (auto simp add: dropTask_def notified_def)
  next
    case downloaded
    with assms show ?thesis
      unfolding r by (simp add: dropTask_def notified_def)
  next
    case skipped
    with assms show ?thesis
      unfolding r by (simp add: dropTask_def notified_def)
  next
    case (applying x)
    with assms show ?thesis
      unfolding r by (simp add: dropTask_def notified_def)
  qed
qed

text \<open>The state changes of the callback of the flag file's writing.\<close>

lemma ready_in_apply:
  assumes "Ready update \<in> set (notified w (dropTask k (snd (onFlagWritten e aio update' w))))"
  shows "update' = update \<and> writeFileError aio = None \<and> isActive0 aio \<and>
     length (spawned (dropTask k (snd (onFlagWritten e aio update' w)))) = Suc (length (spawned w))"
proof (cases rule: onFlagWritten_cases [of aio e update' w])
  case (failed err)
  with assms show ?thesis by (simp add: dropTask_def notified_def)
next
  case threw
  with assms show ?thesis by (simp add: dropTask_def notified_def)
next
  case (spawned a)
  with assms show ?thesis
    by (simp add: dropTask_def notified_def poll_def setState_def split: if_splits)
qed

text \<open>
  C2, as the code has it. A state \<open>Ready update\<close> is entered only in one of three ways: by
  the callback of a check's chain that finds the package at its path or has renamed the
  download to it, when fast updates are disabled or not supported by the descriptor, and
  then that callback spawns no installer; by the callback of the flag file's writing in
  \<^verbatim>\<open>doApplyUpdate\<close>, which spawns the installer and whose immediate first poll found the
  readiness signal active; or by the timer of a pending poll for that update that found
  the signal active.
\<close>

theorem ready_entered_only:
  assumes "Ready update \<in> set (notified w (fire e ev w))"
  shows "(case ev of
      Resume k \<Rightarrow>
        k < length (tasks w) \<and>
        (case tasks w ! k of
           CheckTask st context io \<Rightarrow>
             (st = AwaitExists update \<or> st = AwaitRename update) \<and>
             \<not> (fastUpdatesEnabled io \<and> supportsFastUpdate update) \<and>
             spawned (fire e ev w) = spawned w
         | ApplyTask update' aio \<Rightarrow>
             update' = update \<and> writeFileError aio = None \<and> isActive0 aio \<and>
             length (spawned (fire e ev w)) = Suc (length (spawned w)))
    | PollTimer k active \<Rightarrow> active \<and> k < length (polls w) \<and> polls w ! k = update
    | _ \<Rightarrow> False)"
proof (cases ev)
  case (CheckForUpdates c io)
  with assms show ?thesis
    by (simp add: notified_def doCheckForUpdates_def Let_def setState_def request_def
        split: if_splits option.splits)
next
  case DownloadUpdate
  with assms show ?thesis
    by (cases "state w") (simp_all add: notified_def doDownloadUpdate_def setState_def)
next
  case (ApplyUpdate aio)
  with assms show ?thesis
    by (cases rule: doApplyUpdate_cases [of w e aio]) (simp_all add: notified_def)
next
  case QuitAndInstall
  with assms show ?thesis by (simp add: notified_def onStateChange_doQuitAndInstall)
next
  case (PollTimer k active)
  with assms show ?thesis
    by (simp add: notified_def onPollTimer_def poll_def setState_def split: if_splits)
next
  case ChildExit
  with assms show ?thesis
    by (simp add: notified_def onChildExit_def setState_def split: if_splits)
next
  case (Resume k)
  show ?thesis
  proof (cases "k < length (tasks w)")
    case False
    with assms Resume show ?thesis by (simp add: onResume_def notified_self)
  next
    case True
    show ?thesis
    proof (cases "tasks w ! k")
      case (CheckTask st c io)
      with assms Resume True
      have "Ready update \<in> set (notified w (resumeCheck e k st c io w))"
        by (simp add: onResume_def)
      from ready_in_check [OF this] Resume True CheckTask show ?thesis
        by (simp add: onResume_def)
    next
      case (ApplyTask update' aio)
      with assms Resume True
      have "Ready update \<in> set (notified w (dropTask k (snd (onFlagWritten e aio update' w))))"
        by (simp add: onResume_def)
      from ready_in_apply [OF this] Resume True ApplyTask show ?thesis
        by (auto simp add: onResume_def)
    qed
  qed
qed

text \<open>The pending poll of \<open>polling_world\<close> enters \<open>Ready\<close> when it finds the signal active.\<close>

theorem ready_entered_only_witness:
  "Ready ex_update \<in> set (notified polling_world (fire ex_env (PollTimer 0 True) polling_world)) \<and>
   0 < length (polls polling_world) \<and> polls polling_world ! 0 = ex_update"
proof -
  have h: "Ready ex_update \<in> set (notified polling_world (fire ex_env (PollTimer 0 True) polling_world))"
    by code_simp
  show ?thesis
    using ready_entered_only [OF h] h by simp
qed

text \<open>
  C2, as the claim has it, fails: with fast updates disabled a check ends in \<open>Ready\<close>
  although no installer was spawned, no poll was started and the signal is inactive.
\<close>

theorem ready_without_signal_counterexample:
  "state (run ex_env (CheckForUpdates False plain_io # resumes 6) ex_world) = Ready ex_update \<and>
   isActive0 (applyIO plain_io) = False \<and>
   spawned (run ex_env (CheckForUpdates False plain_io # resumes 6) ex_world) = [] \<and>
   polls (run ex_env (CheckForUpdates False plain_io # resumes 6) ex_world) = []"
  by code_simp

subsection \<open>The installer's exit\<close>

lemma fire_inactivePoll:
  assumes "inactivePoll ev"
  shows "children (fire e ev w) = children w"
  using assms by (cases ev) (simp_all add: onPollTimer_def poll_def)

lemma run_inactivePolls:
  "list_all inactivePoll evs \<Longrightarrow> children (run e evs w) = children w"
  by (induction evs arbitrary: w) (simp_all add: run_Nil run_Cons fire_inactivePoll)

lemma fire_ChildExit:
  "0 < children w \<Longrightarrow>
     state (fire e ChildExit w) = Idle (getUpdateType e) None \<and>
     availableUpdate (fire e ChildExit w) = None"
  by (simp add: onChildExit_def setState_def)

lemma doApplyUpdate_unavailable: "availableUpdate w = None \<Longrightarrow> doApplyUpdate e aio w = w"
  by (simp add: doApplyUpdate_def)

lemma doQuitAndInstall_unavailable:
  "availableUpdate w = None \<Longrightarrow> snd (doQuitAndInstall e w) = w"
  by (cases "state w") (simp_all add: doQuitAndInstall_def)

lemma fire_keeps_unavailable:
  assumes "\<not> isCheck ev" and "availableUpdate w = None"
  shows "availableUpdate (fire e ev w) = None"
proof (cases ev)
  case (CheckForUpdates c io)
  with assms(1) show ?thesis by simp
next
  case DownloadUpdate
  with assms(2) show ?thesis
    by (cases "state w") (simp_all add: doDownloadUpdate_def setState_def)
next
  case (ApplyUpdate aio)
  with assms(2) show ?thesis by (simp add: doApplyUpdate_unavailable)
next
  case QuitAndInstall
  with assms(2) show ?thesis by (simp add: doQuitAndInstall_unavailable)
next
  case (PollTimer k active)
  with assms(2) show ?thesis by (simp add: onPollTimer_def poll_def setState_def)
next
  case ChildExit
  with assms(2) show ?thesis by (simp add: onChildExit_def setState_def)
next
  case (Resume k)
  with assms(1) show ?thesis by simp
qed

lemma run_keeps_unavailable:
  "list_all (\<lambda>ev. \<not> isCheck ev) evs \<Longrightarrow> availableUpdate w = None \<Longrightarrow>
     availableUpdate (run e evs w) = None"
  by (induction evs arbitrary: w) (simp_all add: run_Nil run_Cons fire_keeps_unavailable)

text \<open>The call of \<^verbatim>\<open>doApplyUpdate\<close> from \<open>Downloaded\<close> or \<open>Downloading\<close> with an available
  update, and then the callback of the flag file's writing.\<close>

lemma doApplyUpdate_started:
  assumes "state w = Downloaded update \<or> state w = Downloading update"
    and "availableUpdate w = Some a"
  shows "doApplyUpdate e aio w =
     w\<lparr>state := Updating update, onStateChange := onStateChange w @ [Updating update],
       availableUpdate := Some (a\<lparr>updateFilePath := Some (flagFilePath e (version update))\<rparr>),
       tasks := tasks w @ [ApplyTask update aio]\<rparr>"
  using assms by (auto simp add: doApplyUpdate_def applyAvailable_def setState_def)

lemma flag_written:
  assumes "k < length (tasks w)" and "tasks w ! k = ApplyTask update aio"
    and "writeFileError aio = None" and "availableUpdate w = Some a"
  shows "fire e (Resume k) w =
     dropTask k (poll (isActive0 aio) update
       (w\<lparr>files := AList.update (flagFilePath e (version update)) ''flag'' (files w),
          spawned := spawned w @ [(packagePath a, installerArgs (updateFilePathText a))],
          children := Suc (children w)\<rparr>))"
  using assms
  by (simp add: onResume_def onFlagWritten_def pfs_writeFile_def spawn_def onceExit_def)

text \<open>
  C7. An update is applied from \<open>Downloaded\<close> or \<open>Downloading\<close>: \<^verbatim>\<open>doApplyUpdate\<close> is called
  and the flag file is written, so the installer is spawned; the first poll finds the
  readiness signal inactive, as do all later polls \<open>evs\<close>. When the installer then exits,
  the exit observer sets the state to \<open>Idle\<close> and clears the available update, and from
  then on, until a check is started or continued, \<open>doApplyUpdate\<close> changes nothing and
  spawns nothing (it returns the world as it is).
\<close>

theorem installer_exit_before_ready:
  assumes "state w = Downloaded update \<or> state w = Downloading update"
    and "availableUpdate w = Some a"
    and "writeFileError aio = None" and "\<not> isActive0 aio"
    and "list_all inactivePoll evs"
    and "list_all (\<lambda>ev. \<not> isCheck ev) later"
  shows "spawned (fire e (Resume (length (tasks w))) (doApplyUpdate e aio w)) =
       spawned w @ [(packagePath a, installerArgs (flagFilePath e (version update)))] \<and>
     state (fire e ChildExit (run e evs
       (fire e (Resume (length (tasks w))) (doApplyUpdate e aio w)))) = Idle (getUpdateType e) None \<and>
     availableUpdate (fire e ChildExit (run e evs
       (fire e (Resume (length (tasks w))) (doApplyUpdate e aio w)))) = None \<and>
     doApplyUpdate e aio' (run e later (fire e ChildExit (run e evs
       (fire e (Resume (length (tasks w))) (doApplyUpdate e aio w))))) =
       run e later (fire e ChildExit (run e evs
         (fire e (Resume (length (tasks w))) (doApplyUpdate e aio w))))"
proof -
  let ?w0 = "doApplyUpdate e aio w"
  let ?w1 = "fire e (Resume (length (tasks w))) ?w0"
  let ?w2 = "fire e ChildExit (run e evs ?w1)"
  let ?a = "a\<lparr>updateFilePath := Some (flagFilePath e (version update))\<rparr>"
  have w0: "?w0 = w\<lparr>state := Updating update, onStateChange := onStateChange w @ [Updating update],
       availableUpdate := Some ?a, tasks := tasks w @ [ApplyTask update aio]\<rparr>"
    using assms(1,2) by (rule doApplyUpdate_started)
  have k: "length (tasks w) < length (tasks ?w0)"
    and t: "tasks ?w0 ! length (tasks w) = ApplyTask update aio"
    and a: "availableUpdate ?w0 = Some ?a"
    unfolding w0 by simp_all
  have w1: "?w1 = dropTask (length (tasks w)) (poll (isActive0 aio) update
       (?w0\<lparr>files := AList.update (flagFilePath e (version update)) ''flag'' (files ?w0),
          spawned := spawned ?w0 @ [(packagePath ?a, installerArgs (updateFilePathText ?a))],
          children := Suc (children ?w0)\<rparr>))"
    using k t assms(3) a by (rule flag_written)
  have s: "spawned ?w1 =
      spawned w @ [(packagePath a, installerArgs (flagFilePath e (version update)))]"
    unfolding w1 unfolding w0
    by (simp add: dropTask_def poll_def setState_def updateFilePathText_def)
  have "children ?w1 = Suc (children w)"
    unfolding w1 unfolding w0 by (simp add: dropTask_def poll_def setState_def)
  then have "0 < children (run e evs ?w1)"
    using run_inactivePolls [OF assms(5)] by simp
  then have idle: "state ?w2 = Idle (getUpdateType e) None \<and> availableUpdate ?w2 = None"
    by (rule fire_ChildExit)
  then have "availableUpdate (run e later ?w2) = None"
    using run_keeps_unavailable [OF assms(6)] by simp
  then have "doApplyUpdate e aio' (run e later ?w2) = run e later ?w2"
    by (rule doApplyUpdate_unavailable)
  with idle s show ?thesis by simp
qed

text \<open>The system-wide installation applies its downloaded update, one poll finds the signal
  inactive, the installer exits; a later poll and a later \<open>applyUpdate\<close> follow.\<close>

theorem installer_exit_before_ready_witness:
  "state downloaded_world = Downloaded ex_update \<and>
   map fst (spawned (fire system_env (Resume 0) (doApplyUpdate system_env ex_apply_io downloaded_world))) =
     [getUpdatePackagePath system_env ''2.0.0''] \<and>
   state (fire system_env ChildExit (run system_env [PollTimer 0 False]
     (fire system_env (Resume 0) (doApplyUpdate system_env ex_apply_io downloaded_world)))) =
     Idle Setup None \<and>
   availableUpdate (fire system_env ChildExit (run system_env [PollTimer 0 False]
     (fire system_env (Resume 0) (doApplyUpdate system_env ex_apply_io downloaded_world)))) =
     None \<and>
   doApplyUpdate system_env ex_apply_io
     (run system_env [PollTimer 0 True, ApplyUpdate ex_apply_io] (fire system_env ChildExit
       (run system_env [PollTimer 0 False]
         (fire system_env (Resume 0) (doApplyUpdate system_env ex_apply_io downloaded_world))))) =
     run system_env [PollTimer 0 True, ApplyUpdate ex_apply_io] (fire system_env ChildExit
       (run system_env [PollTimer 0 False]
         (fire system_env (Resume 0) (doApplyUpdate system_env ex_apply_io downloaded_world))))"
proof -
  have h1: "state downloaded_world = Downloaded ex_update \<or> state downloaded_world = Downloading ex_update"
    by code_simp
  have s: "state downloaded_world = Downloaded ex_update" by code_simp
  have h2: "availableUpdate downloaded_world =
      Some \<lparr>packagePath = getUpdatePackagePath system_env ''2.0.0'', updateFilePath = None\<rparr>"
    by code_simp
  have h3: "writeFileError ex_apply_io = None" by code_simp
  have h4: "\<not> isActive0 ex_apply_io" by code_simp
  have h5: "list_all inactivePoll [PollTimer 0 False]" by simp
  have h6: "list_all (\<lambda>ev. \<not> isCheck ev) [PollTimer 0 True, ApplyUpdate ex_apply_io]" by simp
  have t: "getUpdateType system_env = Setup" "spawned downloaded_world = []"
    "length (tasks downloaded_world) = 0" by code_simp+
  show ?thesis
    using installer_exit_before_ready [OF h1 h2 h3 h4 h5 h6, of system_env ex_apply_io] s t
    by simp
qed

subsection \<open>Ready with no available update\<close>

text \<open>
  C10 fails on the code. A background check of the per-user installation downloads the
  package, spawns the installer and starts the poll; the installer exits, which clears
  the available update; the poll, still pending, then finds the signal active and sets
  \<open>Ready\<close>. In that state \<open>doQuitAndInstall\<close> reads a property of the absent record and
  throws.
\<close>

theorem ready_without_available_update:
  "state (run ex_env (CheckForUpdates False ex_io # resumes 7 @ [ChildExit, PollTimer 0 True]) ex_world) =
     Ready ex_update \<and>
   availableUpdate
     (run ex_env (CheckForUpdates False ex_io # resumes 7 @ [ChildExit, PollTimer 0 True]) ex_world) = None \<and>
   fst (doQuitAndInstall ex_env
     (run ex_env (CheckForUpdates False ex_io # resumes 7 @ [ChildExit, PollTimer 0 True]) ex_world)) =
     Some (Error ''TypeError'')"
  by code_simp

subsection \<open>The routes after a download\<close>







lemma dropTask_snoc:
  "k < length ts \<Longrightarrow> take k (ts @ [t]) @ drop (Suc k) (ts @ [t]) = take k ts @ drop (Suc k) ts @ [t]"
  by simp

lemma length_dropped:
  "k < length ts \<Longrightarrow> length (take k ts @ drop (Suc k) ts) = length ts - 1"
  by simp





end
